theory Spec2Isabelle
  imports Complex_Main "HOL-Library.Word" "HOL-Library.Sublist"
begin

section \<open>JavaScript strings\<close>

text \<open>
  A JavaScript string is a sequence of 16-bit code units; \<open>s.length\<close> counts code
  units. String literals of the source are written with \<open>js\<close>, which maps each
  (ASCII) character of the literal to its code unit.
\<close>

type_synonym js_string = "16 word list"

definition js :: "string \<Rightarrow> js_string" where
  "js s = map of_char s"

section \<open>The account store (server/storage.ts)\<close>

text \<open>
  \<open>UserSafe\<close> (server/auth.ts) types the plan columns as the unions
  \<open>"free" | "pro" | "enterprise"\<close> and \<open>"free" | "active" | "past_due" | "cancelled"\<close>;
  \<open>updateSubscription\<close> takes its arguments at the same types.
\<close>

datatype plan_type = Free | Pro | Enterprise

datatype subscription_status = StatusFree | Active | PastDue | Cancelled

text \<open>
  A row of the \<open>users\<close> table, with the columns the subscription and usage operations
  read or write. The remaining columns (email, name, password hash, role, billing ids,
  timestamps) are never touched by these operations. The counters are integer columns
  read into JavaScript numbers; \<open>aiGenerationsUsed + 1\<close> is exact in that range.
\<close>

record user =
  planType :: plan_type
  subscriptionStatus :: subscription_status
  aiGenerationsUsed :: int
  aiGenerationsLimit :: int

text \<open>A row of the \<open>aiGenerations\<close> table: what \<open>logAiGeneration\<close> inserts.\<close>

record ai_generation =
  gen_userId :: js_string
  gen_prompt :: js_string
  gen_result :: js_string
  gen_tokensUsed :: int

text \<open>
  The database: the \<open>users\<close> table as a map from the primary key \<open>id\<close> to the row,
  and the \<open>aiGenerations\<close> table as the list of inserted rows, oldest first.
\<close>

record db =
  users :: "js_string \<rightharpoonup> user"
  aiGenerations :: "ai_generation list"

text \<open>\<open>getUser\<close>: the row with this id, or \<open>undefined\<close>.\<close>

definition getUser :: "db \<Rightarrow> js_string \<Rightarrow> user option" where
  "getUser d uid = users d uid"

record usage =
  usage_used :: int
  usage_limit :: int
  usage_remaining :: int

definition getAiUsage :: "db \<Rightarrow> js_string \<Rightarrow> usage" where
  "getAiUsage d userId =
     (case getUser d userId of
        None \<Rightarrow> \<lparr>usage_used = 0, usage_limit = 3, usage_remaining = 3\<rparr>
      | Some u \<Rightarrow>
          \<lparr>usage_used = aiGenerationsUsed u, usage_limit = aiGenerationsLimit u,
           usage_remaining = max 0 (aiGenerationsLimit u - aiGenerationsUsed u)\<rparr>)"

text \<open>
  \<open>incrementAiUsage\<close> returns its boolean and the database after the call. The only
  write is the \<open>UPDATE users SET aiGenerationsUsed = used + 1 WHERE id = userId\<close> of
  the last branch.
\<close>

definition incrementAiUsage :: "db \<Rightarrow> js_string \<Rightarrow> bool \<times> db" where
  "incrementAiUsage d userId =
     (case getUser d userId of
        None \<Rightarrow> (False, d)
      | Some u \<Rightarrow>
          (let hasPaidPlan = (planType u = Pro \<or> planType u = Enterprise);
               isActiveSubscription = (subscriptionStatus u = Active)
           in if hasPaidPlan \<and> isActiveSubscription then (True, d)
              else if aiGenerationsUsed u \<ge> aiGenerationsLimit u then (False, d)
              else (True,
                    d\<lparr>users := (users d)(userId \<mapsto>
                         u\<lparr>aiGenerationsUsed := aiGenerationsUsed u + 1\<rparr>)\<rparr>)))"

text \<open>
  \<open>logAiGeneration\<close> is one \<open>INSERT ... RETURNING\<close>. The prompt and the result are
  stored as text, and what the store does with a text is not the repository's: it may
  refuse the row (PostgreSQL refuses a text that holds the code unit 0), and then the
  call throws; or store it changed (a surrogate outside a pair is stored as U+FFFD).
  \<open>insertRow\<close> stands for the statement: on the row to insert it gives \<open>Inr\<close> the
  row as stored or \<open>Inl\<close> the error thrown.
\<close>

definition logAiGeneration ::
  "(ai_generation \<Rightarrow> 'x + ai_generation) \<Rightarrow> db \<Rightarrow> js_string \<Rightarrow> js_string \<Rightarrow> js_string \<Rightarrow> int \<Rightarrow>
   'x + db" where
  "logAiGeneration insertRow d userId p r t =
     (case insertRow \<lparr>gen_userId = userId, gen_prompt = p, gen_result = r, gen_tokensUsed = t\<rparr> of
        Inl err \<Rightarrow> Inl err
      | Inr row \<Rightarrow> Inr (d\<lparr>aiGenerations := aiGenerations d @ [row]\<rparr>))"

record subscription =
  sub_planType :: plan_type
  sub_status :: subscription_status
  isBlocked :: bool
  canUseAi :: bool

definition getSubscriptionStatus :: "db \<Rightarrow> js_string \<Rightarrow> subscription" where
  "getSubscriptionStatus d userId =
     (case getUser d userId of
        None \<Rightarrow> \<lparr>sub_planType = Free, sub_status = StatusFree, isBlocked = False, canUseAi = True\<rparr>
      | Some u \<Rightarrow>
          (let pt = planType u;
               st = subscriptionStatus u;
               blocked = (st = PastDue \<or> st = Cancelled);
               hasCredits = (aiGenerationsUsed u < aiGenerationsLimit u);
               hasPaidPlan = (pt = Pro \<or> pt = Enterprise);
               can = (\<not> blocked \<and> (hasCredits \<or> hasPaidPlan))
           in \<lparr>sub_planType = pt, sub_status = st, isBlocked = blocked, canUseAi = can\<rparr>))"

text \<open>The table \<open>limits\<close> of \<open>updateSubscription\<close>.\<close>

fun limits :: "plan_type \<Rightarrow> int" where
  "limits Free = 3"
| "limits Pro = 999999"
| "limits Enterprise = 999999"

text \<open>
  \<open>updateSubscription\<close> is one \<open>UPDATE users SET ... WHERE id = userId\<close>: it changes
  the row with this id when there is one, and nothing otherwise. The key
  \<open>aiGenerationsUsed\<close> is part of the update only for the free plan.
\<close>

definition updateSubscription ::
  "db \<Rightarrow> js_string \<Rightarrow> plan_type \<Rightarrow> subscription_status \<Rightarrow> db" where
  "updateSubscription d userId pt st =
     (case users d userId of
        None \<Rightarrow> d
      | Some u \<Rightarrow>
          (let u1 = u\<lparr>planType := pt, subscriptionStatus := st,
                      aiGenerationsLimit := limits pt\<rparr>;
               u2 = (if pt = Free then u1\<lparr>aiGenerationsUsed := 0\<rparr> else u1)
           in d\<lparr>users := (users d)(userId \<mapsto> u2)\<rparr>))"

text \<open>\<open>n\<close> calls of \<open>incrementAiUsage\<close> in a row, keeping the database of the last.\<close>

fun incrementAiUsage_times :: "nat \<Rightarrow> db \<Rightarrow> js_string \<Rightarrow> db" where
  "incrementAiUsage_times 0 d userId = d"
| "incrementAiUsage_times (Suc n) d userId =
     incrementAiUsage_times n (snd (incrementAiUsage d userId)) userId"

section \<open>The generate endpoint (server/routes.ts)\<close>

text \<open>The JSON bodies the handler of \<open>POST /api/ai/generate\<close> sends.\<close>

datatype body =
    PaymentBody js_string bool subscription
      \<comment> \<open>\<open>{message, requiresPayment, subscription}\<close>\<close>
  | UpgradeBody js_string bool subscription
      \<comment> \<open>\<open>{message, requiresUpgrade, subscription}\<close>\<close>
  | MessageBody js_string
      \<comment> \<open>\<open>{message}\<close>\<close>
  | ResultBody js_string int usage
      \<comment> \<open>\<open>{result, tokensUsed, usage}\<close>\<close>

type_synonym response = "nat \<times> body"

definition msg_requires_payment :: js_string where
  "msg_requires_payment =
     js ''Your subscription requires payment. Please upgrade to continue using AI features.''"

definition msg_limit_unlimited :: js_string where
  "msg_limit_unlimited =
     js ''AI generation limit reached. Upgrade your plan for unlimited generations.''"

definition msg_unavailable :: js_string where
  "msg_unavailable =
     js ''AI service temporarily unavailable. Please try again. Your credits were not used.''"

definition msg_limit_more :: js_string where
  "msg_limit_more =
     js ''AI generation limit reached. Upgrade your plan for more generations.''"

definition msg_internal :: js_string where
  "msg_internal = js ''Internal server error''"

text \<open>
  The body of the handler's inner \<open>try\<close> block, where the provider would be called. In
  the source it is a placeholder: a template string around the prompt, and
  \<open>Math.floor(prompt.length * 1.5)\<close> tokens. It returns a result and a token count and
  leaves the provider's state \<open>w\<close> alone; it never throws.
\<close>

definition placeholderProvider :: "js_string \<Rightarrow> 'w \<Rightarrow> ('e + js_string \<times> int) \<times> 'w" where
  "placeholderProvider p w =
     (Inr (js ''Generated content for: '' @ p @
             js ''. This is a placeholder - connect OpenAI API for real AI generation.'',
           \<lfloor>real (length p) * 1.5\<rfloor>),
      w)"

text \<open>
  The handler of \<open>POST /api/ai/generate\<close>, after \<open>authMiddleware\<close> has set
  \<open>req.user.id\<close> to \<open>uid\<close>. It returns the response, the database and the provider's
  state after the request.

  \<^item> \<open>schema\<close> stands for \<open>aiGenerateSchema.parse\<close> (declared in @shared/schema): on a
    request body it gives \<open>Inr\<close> the validated prompt, or \<open>Inl\<close> the first message of
    the ZodError it throws, which the outer \<open>catch\<close> turns into a 400.
  \<^item> \<open>provider\<close> stands for the body of the inner \<open>try\<close> block: from the prompt and
    the provider's state \<open>w\<close> it gives \<open>Inr (result, tokensUsed)\<close>, or \<open>Inl\<close> the
    exception the inner \<open>catch\<close> turns into a 503. The source's own block is
    \<open>placeholderProvider\<close>.
  \<^item> \<open>insertRow\<close> is the INSERT of \<open>logAiGeneration\<close>. When it throws, the outer
    \<open>catch\<close> answers 500; the UPDATE of \<open>incrementAiUsage\<close> has been committed by
    then, as the two statements are not in one transaction.

  The other storage calls (reads by the caller's id, and the UPDATE of a counter) are
  total here: the database being unreachable is not part of the model. The \<open>usage\<close>
  read before the \<open>try\<close> block is not used by the source either.
\<close>

definition ai_generate ::
  "('b \<Rightarrow> js_string + js_string) \<Rightarrow> (js_string \<Rightarrow> 'w \<Rightarrow> ('e + js_string \<times> int) \<times> 'w) \<Rightarrow>
   (ai_generation \<Rightarrow> 'x + ai_generation) \<Rightarrow>
   js_string \<Rightarrow> 'b \<Rightarrow> db \<Rightarrow> 'w \<Rightarrow> response \<times> db \<times> 'w" where
  "ai_generate schema provider insertRow uid reqBody d w =
     (case schema reqBody of
        Inl zodMessage \<Rightarrow> ((400, MessageBody zodMessage), d, w)
      | Inr p \<Rightarrow>
          (let subscription = getSubscriptionStatus d uid
           in if isBlocked subscription
              then ((402, PaymentBody msg_requires_payment True subscription), d, w)
              else if \<not> canUseAi subscription
              then ((403, UpgradeBody msg_limit_unlimited True subscription), d, w)
              else
                (let usage = getAiUsage d uid
                 in case provider p w of
                      (Inl aiError, w') \<Rightarrow> ((503, MessageBody msg_unavailable), d, w')
                    | (Inr (r, t), w') \<Rightarrow>
                        (case incrementAiUsage d uid of
                           (False, d') \<Rightarrow> ((403, MessageBody msg_limit_more), d', w')
                         | (True, d') \<Rightarrow>
                             (case logAiGeneration insertRow d' uid p r t of
                                Inl err \<Rightarrow> ((500, MessageBody msg_internal), d', w')
                              | Inr d'' \<Rightarrow>
                                  (let updatedUsage = getAiUsage d'' uid
                                   in ((200, ResultBody r t updatedUsage), d'', w')))))))"

section \<open>Regular expressions (String.prototype.replace and match)\<close>

text \<open>
  The regular expressions of the source are built from: one code unit of a class, a
  sequence, an optional code unit (\<open>c?\<close>), a greedy star over a class (\<open>[c]*\<close>), a
  lazy star over a class (\<open>[c]*?\<close>), and the two ends of a capture group (\<open>Mark\<close>).
\<close>

datatype 'a rx =
    Chr "'a \<Rightarrow> bool"
  | Cat "'a rx" "'a rx"
  | Eps
  | Opt "'a \<Rightarrow> bool"
  | StarG "'a \<Rightarrow> bool"
  | StarL "'a \<Rightarrow> bool"
  | Mark

text \<open>
  The backtracking matcher of ECMAScript, in continuation style: \<open>rx_match r s k\<close>
  matches \<open>r\<close> at the start of \<open>s\<close> and hands the rest of the input to the
  continuation \<open>k\<close>; when \<open>k\<close> fails it backtracks to the next alternative of \<open>r\<close>,
  in the order of the language (a greedy item tries to take a code unit first, a lazy
  one tries to stop first). The result is the list of inputs seen at the marks, in
  order, and the input left after the whole match.
\<close>

fun rx_match ::
  "'a rx \<Rightarrow> 'a list \<Rightarrow> ('a list \<Rightarrow> ('a list list \<times> 'a list) option) \<Rightarrow>
   ('a list list \<times> 'a list) option" where
  "rx_match (Chr P) [] k = None"
| "rx_match (Chr P) (c # cs) k = (if P c then k cs else None)"
| "rx_match (Cat a b) s k = rx_match a s (\<lambda>s'. rx_match b s' k)"
| "rx_match Eps s k = k s"
| "rx_match (Opt P) [] k = k []"
| "rx_match (Opt P) (c # cs) k =
     (if P c then (case k cs of Some res \<Rightarrow> Some res | None \<Rightarrow> k (c # cs))
      else k (c # cs))"
| "rx_match (StarG P) [] k = k []"
| "rx_match (StarG P) (c # cs) k =
     (if P c
      then (case rx_match (StarG P) cs k of Some res \<Rightarrow> Some res | None \<Rightarrow> k (c # cs))
      else k (c # cs))"
| "rx_match (StarL P) [] k = k []"
| "rx_match (StarL P) (c # cs) k =
     (case k (c # cs) of
        Some res \<Rightarrow> Some res
      | None \<Rightarrow> if P c then rx_match (StarL P) cs k else None)"
| "rx_match Mark s k = (case k s of None \<Rightarrow> None | Some (ms, e) \<Rightarrow> Some (s # ms, e))"

text \<open>A match of \<open>r\<close> that starts at the first code unit of \<open>s\<close>.\<close>

definition rx_match_here :: "'a rx \<Rightarrow> 'a list \<Rightarrow> ('a list list \<times> 'a list) option" where
  "rx_match_here r s = rx_match r s (\<lambda>e. Some ([], e))"

text \<open>
  \<open>s.match(r)\<close> for a regular expression without the \<open>g\<close> flag: the match at the
  leftmost position that has one. The result is the input from that position on, the
  marks and the input left after the match.
\<close>

fun rx_exec :: "'a rx \<Rightarrow> 'a list \<Rightarrow> ('a list \<times> 'a list list \<times> 'a list) option" where
  "rx_exec r [] = (case rx_match_here r [] of None \<Rightarrow> None | Some res \<Rightarrow> Some ([], res))"
| "rx_exec r (c # cs) =
     (case rx_match_here r (c # cs) of
        None \<Rightarrow> rx_exec r cs
      | Some res \<Rightarrow> Some (c # cs, res))"

text \<open>The text between two positions of the input, each given by the input left there.\<close>

definition between :: "'a list \<Rightarrow> 'a list \<Rightarrow> 'a list" where
  "between s e = take (length s - length e) s"

text \<open>
  \<open>s.replace(r, "")\<close> for a regular expression with the \<open>g\<close> flag: every match, found
  left to right, is removed; the search goes on after the match. After an empty match
  the next code unit is kept and the search goes on behind it.
\<close>

function rx_remove_all :: "'a rx \<Rightarrow> 'a list \<Rightarrow> 'a list" where
  "rx_remove_all r s =
     (case rx_match_here r s of
        Some (ms, e) \<Rightarrow>
          if length e < length s then rx_remove_all r e
          else (case s of [] \<Rightarrow> [] | c # cs \<Rightarrow> c # rx_remove_all r cs)
      | None \<Rightarrow> (case s of [] \<Rightarrow> [] | c # cs \<Rightarrow> c # rx_remove_all r cs))"
  by pat_completeness auto
termination
  by (relation "measure (\<lambda>(r, s). length s)") auto

declare rx_remove_all.simps [simp del]

section \<open>Code units and the patterns of the source\<close>

text \<open>
  With the \<open>i\<close> flag and no \<open>u\<close> flag, two code units match when their canonical
  forms (\<open>toUpperCase\<close>, kept only when it does not map a non-ASCII code unit to an
  ASCII one) are equal. Every pattern character of the source is ASCII, so a code unit
  matches it exactly when their ASCII upper-case forms are equal.
\<close>

definition ascii_upper :: "16 word \<Rightarrow> 16 word" where
  "ascii_upper c = (if 97 \<le> c \<and> c \<le> 122 then c - 32 else c)"

definition same_ci :: "js_string \<Rightarrow> js_string \<Rightarrow> bool" where
  "same_ci a b = (map ascii_upper a = map ascii_upper b)"

definition lit :: "string \<Rightarrow> 16 word rx" where
  "lit p = foldr (\<lambda>c r. Cat (Chr (\<lambda>x. x = of_char c)) r) p Eps"

definition lit_i :: "string \<Rightarrow> 16 word rx" where
  "lit_i p = foldr (\<lambda>c r. Cat (Chr (\<lambda>x. ascii_upper x = ascii_upper (of_char c))) r) p Eps"

definition any_unit :: "16 word \<Rightarrow> bool" where
  "any_unit c = True"

definition newline :: "16 word \<Rightarrow> bool" where
  "newline c = (c = 10)"

definition not_gt :: "16 word \<Rightarrow> bool" where
  "not_gt c = (c \<noteq> of_char CHR ''>'')"

text \<open>
  A literal followed by an optional line feed; \<^verbatim>\<open>/```json\n?/g\<close> and
  \<^verbatim>\<open>/```\n?/g\<close> are of this form.
\<close>

definition fence :: "string \<Rightarrow> 16 word rx" where
  "fence p = Cat (lit p) (Opt newline)"

definition fence_json_rx :: "16 word rx" where
  "fence_json_rx = fence ''```json''"

definition fence_rx :: "16 word rx" where
  "fence_rx = fence ''```''"

text \<open>\<^verbatim>\<open>/<!DOCTYPE html>[\s\S]*<\/html>/i\<close>.\<close>

definition html_rx :: "16 word rx" where
  "html_rx = Cat (lit_i ''<!DOCTYPE html>'') (Cat (StarG any_unit) (lit_i ''</html>''))"

text \<open>\<^verbatim>\<open>/<style[^>]*>([\s\S]*?)<\/style>/i\<close>.\<close>

definition style_rx :: "16 word rx" where
  "style_rx =
     Cat (lit_i ''<style'') (Cat (StarG not_gt) (Cat (lit_i ''>'')
       (Cat Mark (Cat (StarL any_unit) (Cat Mark (lit_i ''</style>''))))))"

text \<open>
  \<open>String.prototype.trim\<close> removes white space and line terminators from both ends:
  TAB, LF, VT, FF, CR, SP, NBSP, the other space separators of Unicode, LS, PS and the
  byte order mark.
\<close>

definition js_space :: "16 word \<Rightarrow> bool" where
  "js_space c =
     (c \<in> {0x9, 0xA, 0xB, 0xC, 0xD, 0x20, 0xA0, 0x1680, 0x2028, 0x2029, 0x202F, 0x205F,
            0x3000, 0xFEFF}
      \<or> (0x2000 \<le> c \<and> c \<le> 0x200A))"

definition trim :: "js_string \<Rightarrow> js_string" where
  "trim s = rev (dropWhile js_space (rev (dropWhile js_space s)))"

section \<open>Parsing the provider's response (generateWebsite, regenerateSection)\<close>

text \<open>
  The values \<open>JSON.parse\<close> returns. A number matters here only through its
  truthiness (it is falsy when it is zero), so it is kept as a real. An object is the
  list of its own properties, each key once.
\<close>

datatype js_value =
    JNull
  | JBoolean bool
  | JNumber real
  | JString js_string
  | JArray "js_value list"
  | JObject "(js_string \<times> js_value) list"

text \<open>\<open>ToBoolean\<close>.\<close>

fun truthy :: "js_value \<Rightarrow> bool" where
  "truthy JNull = False"
| "truthy (JBoolean b) = b"
| "truthy (JNumber x) = (x \<noteq> 0)"
| "truthy (JString s) = (s \<noteq> [])"
| "truthy (JArray xs) = True"
| "truthy (JObject kvs) = True"

text \<open>
  \<open>parsed.html\<close> and \<open>parsed.css\<close>: reading the property \<open>key\<close> (one of these two
  names) of a value \<open>JSON.parse\<close> returned. On \<open>null\<close> the read throws a TypeError
  (\<open>None\<close>). An object gives its own property, or \<open>undefined\<close>; a boolean, a number,
  a string and an array have no property of these names and give \<open>undefined\<close>.
  \<open>Some None\<close> is \<open>undefined\<close>.
\<close>

fun get_property :: "js_value \<Rightarrow> js_string \<Rightarrow> js_value option option" where
  "get_property JNull key = None"
| "get_property (JObject kvs) key = Some (map_of kvs key)"
| "get_property v key = Some None"

text \<open>\<open>x || d\<close>, for \<open>x\<close> a value or \<open>undefined\<close>.\<close>

fun js_or :: "js_value option \<Rightarrow> js_value \<Rightarrow> js_value" where
  "js_or None d = d"
| "js_or (Some x) d = (if truthy x then x else d)"

record generated_website =
  html :: js_value
  css :: js_value

datatype js_error = Error js_string

text \<open>
  The three chained calls that compute \<open>cleanedContent\<close>.
\<close>

definition cleanedContent :: "js_string \<Rightarrow> js_string" where
  "cleanedContent content = trim (rx_remove_all fence_rx (rx_remove_all fence_json_rx content))"

text \<open>\<open>content.match(...)\<close> with the HTML pattern; the result is \<open>htmlMatch[0]\<close>.\<close>

definition htmlMatch :: "js_string \<Rightarrow> js_string option" where
  "htmlMatch content =
     (case rx_exec html_rx content of
        None \<Rightarrow> None
      | Some (s, ms, e) \<Rightarrow> Some (between s e))"

text \<open>\<open>content.match(...)\<close> with the style pattern; the result is \<open>cssMatch[1]\<close>.\<close>

definition cssMatch :: "js_string \<Rightarrow> js_string option" where
  "cssMatch content =
     (case rx_exec style_rx content of
        Some (s, [m1, m2], e) \<Rightarrow> Some (between m1 m2)
      | _ \<Rightarrow> None)"

text \<open>
  \<open>generateWebsite\<close> from the provider's response on (lines 114 to 142): \<open>content\<close> is
  \<open>response.choices[0]?.message?.content || ""\<close>. \<open>JSON_parse\<close> stands for the
  built-in \<open>JSON.parse\<close>: \<open>None\<close> when it throws a SyntaxError. The \<open>try\<close> block
  throws when \<open>JSON.parse\<close> does and when \<open>parsed\<close> is \<open>null\<close>; the \<open>catch\<close>
  block then works on the response as it came.
\<close>

definition generateWebsite ::
  "(js_string \<Rightarrow> js_value option) \<Rightarrow> js_string \<Rightarrow> js_error + generated_website" where
  "generateWebsite JSON_parse content =
     (let tried =
        (case JSON_parse (cleanedContent content) of
           None \<Rightarrow> None
         | Some parsed \<Rightarrow>
             (case (get_property parsed (js ''html''), get_property parsed (js ''css'')) of
                (Some h, Some c) \<Rightarrow>
                  Some \<lparr>html = js_or h (JString (js '''')), css = js_or c (JString (js ''''))\<rparr>
              | _ \<Rightarrow> None))
      in case tried of
           Some website \<Rightarrow> Inr website
         | None \<Rightarrow>
             (case htmlMatch content of
                Some h \<Rightarrow>
                  Inr \<lparr>html = JString h,
                       css = (case cssMatch content of
                                Some c \<Rightarrow> JString c
                              | None \<Rightarrow> JString (js ''''))\<rparr>
              | None \<Rightarrow> Inl (Error (js ''Failed to generate website. Please try again.''))))"

text \<open>
  \<open>regenerateSection\<close> from the provider's response on (lines 178 to 204).
\<close>

definition regenerateSection ::
  "(js_string \<Rightarrow> js_value option) \<Rightarrow> js_string \<Rightarrow> js_string \<Rightarrow> js_string \<Rightarrow>
   js_error + generated_website" where
  "regenerateSection JSON_parse currentHtml currentCss content =
     (let tried =
        (case JSON_parse (cleanedContent content) of
           None \<Rightarrow> None
         | Some parsed \<Rightarrow>
             (case (get_property parsed (js ''html''), get_property parsed (js ''css'')) of
                (Some h, Some c) \<Rightarrow>
                  Some \<lparr>html = js_or h (JString currentHtml), css = js_or c (JString currentCss)\<rparr>
              | _ \<Rightarrow> None))
      in case tried of
           Some website \<Rightarrow> Inr website
         | None \<Rightarrow>
             (case htmlMatch content of
                Some h \<Rightarrow> Inr \<lparr>html = JString h, css = JString (js '''')\<rparr>
              | None \<Rightarrow> Inl (Error (js ''Failed to update website section. Please try again.''))))"

section \<open>Continuations of the patterns\<close>

text \<open>
  What is left of each pattern after one of its items has matched, as a function of
  the input left: these are the continuations the matcher builds. The proofs name them.
\<close>

definition skip_newline :: "js_string \<Rightarrow> js_string" where
  "skip_newline r = (case r of [] \<Rightarrow> [] | c # cs \<Rightarrow> if newline c then cs else c # cs)"

definition html_tail :: "js_string \<Rightarrow> (js_string list \<times> js_string) option" where
  "html_tail s2 = (if same_ci (take 7 s2) (js ''</html>'') then Some ([], drop 7 s2) else None)"

definition style_close :: "js_string \<Rightarrow> (js_string list \<times> js_string) option" where
  "style_close s3 =
     (if same_ci (take 8 s3) (js ''</style>'') then Some ([s3], drop 8 s3) else None)"

definition style_body :: "js_string \<Rightarrow> (js_string list \<times> js_string) option" where
  "style_body s2 =
     (case rx_match (StarL any_unit) s2 style_close of
        None \<Rightarrow> None
      | Some (ms, e) \<Rightarrow> Some (s2 # ms, e))"

definition style_gt :: "js_string \<Rightarrow> (js_string list \<times> js_string) option" where
  "style_gt s1 = (if same_ci (take 1 s1) (js ''>'') then style_body (drop 1 s1) else None)"

text \<open>The result of a match when the text \<open>x\<close> follows the input.\<close>

definition shift ::
  "js_string \<Rightarrow> (js_string list \<times> js_string) option \<Rightarrow> (js_string list \<times> js_string) option" where
  "shift x r = map_option (\<lambda>(ms, e). (map (\<lambda>m. m @ x) ms, e @ x)) r"

section \<open>Example states\<close>

definition example_db :: "user \<Rightarrow> db" where
  "example_db u = \<lparr>users = [js ''u1'' \<mapsto> u], aiGenerations = []\<rparr>"

definition exhausted_free :: user where
  "exhausted_free = \<lparr>planType = Free, subscriptionStatus = StatusFree,
                      aiGenerationsUsed = 3, aiGenerationsLimit = 3\<rparr>"

definition fresh_free :: user where
  "fresh_free = \<lparr>planType = Free, subscriptionStatus = Active,
                  aiGenerationsUsed = 0, aiGenerationsLimit = 3\<rparr>"

definition pro_active :: user where
  "pro_active = \<lparr>planType = Pro, subscriptionStatus = Active,
                  aiGenerationsUsed = 7, aiGenerationsLimit = 999999\<rparr>"

definition pro_past_due :: user where
  "pro_past_due = \<lparr>planType = Pro, subscriptionStatus = PastDue,
                    aiGenerationsUsed = 0, aiGenerationsLimit = 999999\<rparr>"

definition pro_never_activated :: user where
  "pro_never_activated = \<lparr>planType = Pro, subscriptionStatus = StatusFree,
                  aiGenerationsUsed = 2, aiGenerationsLimit = 3\<rparr>"

definition blocked_with_credits :: user where
  "blocked_with_credits = \<lparr>planType = Enterprise, subscriptionStatus = Cancelled,
                  aiGenerationsUsed = 0, aiGenerationsLimit = 999999\<rparr>"

definition acceptPrompt :: "js_string \<Rightarrow> js_string + js_string" where
  "acceptPrompt b = Inr b"

text \<open>
  A schema in the way of \<open>z.object({prompt: z.string()})\<close>, on a body that has a
  prompt or has none: a body with no prompt is refused with the message \<open>Required\<close>.
\<close>

definition promptRequired :: "js_string option \<Rightarrow> js_string + js_string" where
  "promptRequired b = (case b of None \<Rightarrow> Inl (js ''Required'') | Some p \<Rightarrow> Inr p)"

text \<open>
  A store in the way of PostgreSQL's text columns. A text is stored as its UTF-8
  encoding, in which a surrogate outside a pair becomes U+FFFD; a text that holds the
  code unit 0 is refused.
\<close>

fun stored_text :: "js_string \<Rightarrow> js_string" where
  "stored_text [] = []"
| "stored_text [c] = (if 0xD800 \<le> c \<and> c \<le> 0xDFFF then [0xFFFD] else [c])"
| "stored_text (c # c' # cs) =
     (if 0xD800 \<le> c \<and> c \<le> 0xDBFF \<and> 0xDC00 \<le> c' \<and> c' \<le> 0xDFFF
      then c # c' # stored_text cs
      else if 0xD800 \<le> c \<and> c \<le> 0xDFFF then 0xFFFD # stored_text (c' # cs)
      else c # stored_text (c' # cs))"

definition textStore :: "ai_generation \<Rightarrow> unit + ai_generation" where
  "textStore row =
     (if 0 \<in> set (gen_userId row) \<or> 0 \<in> set (gen_prompt row) \<or> 0 \<in> set (gen_result row)
      then Inl ()
      else Inr \<lparr>gen_userId = stored_text (gen_userId row),
                gen_prompt = stored_text (gen_prompt row),
                gen_result = stored_text (gen_result row),
                gen_tokensUsed = gen_tokensUsed row\<rparr>)"

text \<open>A provider that always fails, and counts the calls made to it.\<close>

definition failingProvider :: "js_string \<Rightarrow> nat \<Rightarrow> (unit + js_string \<times> int) \<times> nat" where
  "failingProvider p w = (Inl (), Suc w)"

definition countingProvider :: "js_string \<Rightarrow> nat \<Rightarrow> (unit + js_string \<times> int) \<times> nat" where
  "countingProvider p w = (Inr (js ''<p>ok</p>'', 7), Suc w)"

text \<open>
  The JSON text \<open>{"html":"<p>hi</p>","css":"p{}"}\<close>; 34 is the code unit of the
  double quote.
\<close>

definition example_json_text :: js_string where
  "example_json_text =
     js ''{'' @ [34] @ js ''html'' @ [34] @ js '':'' @ [34] @ js ''<p>hi</p>'' @ [34] @
     js '','' @ [34] @ js ''css'' @ [34] @ js '':'' @ [34] @ js ''p{}'' @ [34] @ js ''}''"

text \<open>
  What \<open>JSON.parse\<close> does on the texts of the examples: the object of the text
  above, the empty object for \<open>{}\<close>, \<open>null\<close> for \<open>null\<close>, and a SyntaxError on
  the other texts used, none of which is JSON.
\<close>

definition example_JSON_parse :: "js_string \<Rightarrow> js_value option" where
  "example_JSON_parse t =
     (if t = example_json_text
      then Some (JObject [(js ''html'', JString (js ''<p>hi</p>'')),
                          (js ''css'', JString (js ''p{}''))])
      else if t = js ''{}'' then Some (JObject [])
      else if t = js ''null'' then Some JNull
      else None)"

text \<open>A response that is not JSON and holds an HTML document with a style block.\<close>

definition example_html_response :: js_string where
  "example_html_response =
     js ''Here is your site: <!DOCTYPE html><HTML><head><style media=all>p{}</style></head></HTML> Enjoy!''"

section \<open>Subscription policy\<close>

text \<open>
  C1. For an existing account, \<open>getSubscriptionStatus\<close> returns \<open>isBlocked\<close> true
  exactly for the statuses past_due and cancelled, and \<open>canUseAi\<close> true exactly when
  the account is not blocked and has credits left or a paid plan; the plan and the
  status are the account's.
\<close>

theorem getSubscriptionStatus_existing:
  assumes "getUser d userId = Some u"
  shows "isBlocked (getSubscriptionStatus d userId)
           = (subscriptionStatus u \<in> {PastDue, Cancelled})
       \<and> canUseAi (getSubscriptionStatus d userId)
           = (\<not> isBlocked (getSubscriptionStatus d userId)
              \<and> (aiGenerationsUsed u < aiGenerationsLimit u \<or> planType u \<in> {Pro, Enterprise}))
       \<and> sub_planType (getSubscriptionStatus d userId) = planType u
       \<and> sub_status (getSubscriptionStatus d userId) = subscriptionStatus u"
  using assms by (simp add: getSubscriptionStatus_def Let_def)

theorem getSubscriptionStatus_existing_witness:
  "getUser (example_db pro_past_due) (js ''u1'') = Some pro_past_due
   \<and> isBlocked (getSubscriptionStatus (example_db pro_past_due) (js ''u1''))
   \<and> \<not> canUseAi (getSubscriptionStatus (example_db pro_past_due) (js ''u1''))
   \<and> sub_planType (getSubscriptionStatus (example_db pro_past_due) (js ''u1'')) = Pro"
proof -
  have h: "getUser (example_db pro_past_due) (js ''u1'') = Some pro_past_due"
    by (simp add: getUser_def example_db_def)
  show ?thesis
    using h getSubscriptionStatus_existing [OF h] by (simp add: pro_past_due_def)
qed

section \<open>Usage ledger\<close>

lemma increment_changes_db:
  assumes "getUser d userId = Some u"
  shows "d\<lparr>users := (users d)(userId \<mapsto> u\<lparr>aiGenerationsUsed := aiGenerationsUsed u + 1\<rparr>)\<rparr> \<noteq> d"
proof
  assume "d\<lparr>users := (users d)(userId \<mapsto> u\<lparr>aiGenerationsUsed := aiGenerationsUsed u + 1\<rparr>)\<rparr> = d"
  then have "users (d\<lparr>users := (users d)(userId \<mapsto> u\<lparr>aiGenerationsUsed := aiGenerationsUsed u + 1\<rparr>)\<rparr>) userId = users d userId"
    by simp
  then have "u\<lparr>aiGenerationsUsed := aiGenerationsUsed u + 1\<rparr> = u"
    using assms by (simp add: getUser_def)
  then have "aiGenerationsUsed (u\<lparr>aiGenerationsUsed := aiGenerationsUsed u + 1\<rparr>) = aiGenerationsUsed u"
    by simp
  then show False by simp
qed

lemma incrementAiUsage_paid_active:
  assumes "getUser d userId = Some u" "planType u \<in> {Pro, Enterprise}" "subscriptionStatus u = Active"
  shows "incrementAiUsage d userId = (True, d)"
  using assms by (auto simp: incrementAiUsage_def)

lemma incrementAiUsage_times_paid_active:
  assumes "getUser d userId = Some u" "planType u \<in> {Pro, Enterprise}" "subscriptionStatus u = Active"
  shows "incrementAiUsage_times n d userId = d"
  using assms by (induction n) (simp_all add: incrementAiUsage_paid_active)

lemma incrementAiUsage_limited:
  assumes "getUser d userId = Some u" "\<not> (planType u \<in> {Pro, Enterprise} \<and> subscriptionStatus u = Active)"
  shows "incrementAiUsage d userId =
           (if aiGenerationsUsed u \<ge> aiGenerationsLimit u then (False, d)
            else (True, d\<lparr>users := (users d)(userId \<mapsto>
                           u\<lparr>aiGenerationsUsed := aiGenerationsUsed u + 1\<rparr>)\<rparr>))"
  using assms by (auto simp: incrementAiUsage_def)

text \<open>
  C3. For an existing account, \<open>incrementAiUsage\<close> returns true and leaves the database
  as it was exactly when the plan is pro or enterprise and the status is active. Under
  that condition any number of calls in a row leaves the database, and so
  \<open>aiGenerationsUsed\<close>, unchanged. An account whose status is not active, whatever its
  plan (pro with status free, say), takes the credit-limited branch: false with no write
  when the credits are used up, true with \<open>aiGenerationsUsed\<close> one higher otherwise.
\<close>

theorem incrementAiUsage_unlimited_iff:
  assumes "getUser d userId = Some u"
  shows "(incrementAiUsage d userId = (True, d))
           = (planType u \<in> {Pro, Enterprise} \<and> subscriptionStatus u = Active)
       \<and> (planType u \<in> {Pro, Enterprise} \<and> subscriptionStatus u = Active
            \<longrightarrow> (\<forall>n. incrementAiUsage_times n d userId = d
                     \<and> getUser (incrementAiUsage_times n d userId) userId = Some u))
       \<and> (subscriptionStatus u \<noteq> Active
            \<longrightarrow> incrementAiUsage d userId =
                  (if aiGenerationsUsed u \<ge> aiGenerationsLimit u then (False, d)
                   else (True, d\<lparr>users := (users d)(userId \<mapsto>
                           u\<lparr>aiGenerationsUsed := aiGenerationsUsed u + 1\<rparr>)\<rparr>)))"
proof (intro conjI impI allI)
  show "(incrementAiUsage d userId = (True, d))
           = (planType u \<in> {Pro, Enterprise} \<and> subscriptionStatus u = Active)"
  proof (cases "planType u \<in> {Pro, Enterprise} \<and> subscriptionStatus u = Active")
    case True
    then show ?thesis using assms incrementAiUsage_paid_active by simp
  next
    case False
    then show ?thesis
      using incrementAiUsage_limited [OF assms False] increment_changes_db [OF assms]
      by (simp split: if_splits)
  qed
next
  fix n assume "planType u \<in> {Pro, Enterprise} \<and> subscriptionStatus u = Active"
  then show "incrementAiUsage_times n d userId = d"
    using assms incrementAiUsage_times_paid_active by simp
  then show "getUser (incrementAiUsage_times n d userId) userId = Some u"
    using assms by simp
next
  assume "subscriptionStatus u \<noteq> Active"
  then show "incrementAiUsage d userId =
                  (if aiGenerationsUsed u \<ge> aiGenerationsLimit u then (False, d)
                   else (True, d\<lparr>users := (users d)(userId \<mapsto>
                           u\<lparr>aiGenerationsUsed := aiGenerationsUsed u + 1\<rparr>)\<rparr>))"
    using incrementAiUsage_limited [OF assms] by simp
qed

theorem incrementAiUsage_unlimited_iff_witness:
  "getUser (example_db pro_active) (js ''u1'') = Some pro_active
   \<and> incrementAiUsage (example_db pro_active) (js ''u1'') = (True, example_db pro_active)
   \<and> incrementAiUsage_times 5 (example_db pro_active) (js ''u1'') = example_db pro_active
   \<and> getUser (example_db pro_never_activated) (js ''u1'') = Some pro_never_activated
   \<and> incrementAiUsage (example_db pro_never_activated) (js ''u1'')
       = (True, example_db (pro_never_activated\<lparr>aiGenerationsUsed := 3\<rparr>))"
proof -
  have h: "getUser (example_db pro_active) (js ''u1'') = Some pro_active"
    by (simp add: getUser_def example_db_def)
  have p: "planType pro_active \<in> {Pro, Enterprise} \<and> subscriptionStatus pro_active = Active"
    by (simp add: pro_active_def)
  have h': "getUser (example_db pro_never_activated) (js ''u1'') = Some pro_never_activated"
    by (simp add: getUser_def example_db_def)
  have q: "subscriptionStatus pro_never_activated \<noteq> Active"
    by (simp add: pro_never_activated_def)
  have "incrementAiUsage (example_db pro_never_activated) (js ''u1'')
       = (True, example_db (pro_never_activated\<lparr>aiGenerationsUsed := 3\<rparr>))"
    using incrementAiUsage_unlimited_iff [OF h'] q
    by (simp add: pro_never_activated_def example_db_def)
  then show ?thesis
    using h h' p incrementAiUsage_unlimited_iff [OF h] by simp
qed

section \<open>Plan changes\<close>

text \<open>
  C5. For an existing account and every new plan and status, \<open>updateSubscription\<close>
  writes the plan and the status as given and the limit of the table (3 for free,
  999999 for pro and for enterprise), and sets \<open>aiGenerationsUsed\<close> to 0 when the new
  plan is free and leaves it as it was otherwise. Nothing else in the database changes.
\<close>

theorem updateSubscription_sets:
  assumes "users d userId = Some u"
  shows "updateSubscription d userId pt st =
           d\<lparr>users := (users d)(userId \<mapsto>
                u\<lparr>planType := pt, subscriptionStatus := st,
                  aiGenerationsLimit := (case pt of Free \<Rightarrow> 3 | Pro \<Rightarrow> 999999 | Enterprise \<Rightarrow> 999999),
                  aiGenerationsUsed := (if pt = Free then 0 else aiGenerationsUsed u)\<rparr>)\<rparr>"
  using assms by (cases pt) (simp_all add: updateSubscription_def Let_def)

theorem updateSubscription_sets_witness:
  "users (example_db pro_active) (js ''u1'') = Some pro_active
   \<and> updateSubscription (example_db pro_active) (js ''u1'') Free Cancelled
       = example_db \<lparr>planType = Free, subscriptionStatus = Cancelled,
                      aiGenerationsUsed = 0, aiGenerationsLimit = 3\<rparr>
   \<and> updateSubscription (example_db exhausted_free) (js ''u1'') Pro Active
       = example_db \<lparr>planType = Pro, subscriptionStatus = Active,
                      aiGenerationsUsed = 3, aiGenerationsLimit = 999999\<rparr>"
proof -
  have h: "users (example_db pro_active) (js ''u1'') = Some pro_active"
    by (simp add: example_db_def)
  have h': "users (example_db exhausted_free) (js ''u1'') = Some exhausted_free"
    by (simp add: example_db_def)
  show ?thesis
    using h updateSubscription_sets [OF h, of Free Cancelled]
      updateSubscription_sets [OF h', of Pro Active]
    by (simp add: example_db_def pro_active_def exhausted_free_def)
qed

section \<open>The generate endpoint\<close>

lemma textStore_ok_row:
  "textStore \<lparr>gen_userId = js ''u1'', gen_prompt = js ''Make a bakery website'',
       gen_result = js ''<p>ok</p>'', gen_tokensUsed = 7\<rparr>
     = Inr \<lparr>gen_userId = js ''u1'', gen_prompt = js ''Make a bakery website'',
          gen_result = js ''<p>ok</p>'', gen_tokensUsed = 7\<rparr>"
  by code_simp

lemma textStore_surrogate_row:
  "textStore \<lparr>gen_userId = js ''u1'', gen_prompt = js ''Shop '' @ [0xD83D],
       gen_result = js ''<p>ok</p>'', gen_tokensUsed = 7\<rparr>
     = Inr \<lparr>gen_userId = js ''u1'', gen_prompt = js ''Shop '' @ [0xFFFD],
          gen_result = js ''<p>ok</p>'', gen_tokensUsed = 7\<rparr>"
  by code_simp

lemma textStore_nul_row:
  "textStore \<lparr>gen_userId = js ''u1'', gen_prompt = js ''Shop '' @ [0],
       gen_result = js ''<p>ok</p>'', gen_tokensUsed = 7\<rparr>
     = Inl ()"
  by code_simp

text \<open>
  C2, as amended. A request whose body the schema refuses is answered 400 with the
  schema's message before the subscription is looked at. For a request whose body
  passes validation, the subscription gate comes before the provider: when
  \<open>isBlocked\<close> holds the response is 402 with the payment message, \<open>requiresPayment\<close>
  and the subscription snapshot; otherwise, when \<open>canUseAi\<close> is false, it is 403 with
  the limit message, \<open>requiresUpgrade\<close> and the snapshot. In all three cases the
  database and the provider's state are as they were, whatever the provider is. An
  account whose status is past_due or cancelled gets the 402 whatever its plan and
  its counters.
\<close>

theorem ai_generate_gate:
  "(\<forall>m. schema reqBody = Inl m \<longrightarrow>
       ai_generate schema provider insertRow uid reqBody d w = ((400, MessageBody m), d, w))
   \<and> (\<forall>p. schema reqBody = Inr p \<longrightarrow>
       (isBlocked (getSubscriptionStatus d uid) \<longrightarrow>
            ai_generate schema provider insertRow uid reqBody d w
              = ((402, PaymentBody msg_requires_payment True (getSubscriptionStatus d uid)), d, w))
       \<and> (\<not> isBlocked (getSubscriptionStatus d uid) \<and> \<not> canUseAi (getSubscriptionStatus d uid) \<longrightarrow>
            ai_generate schema provider insertRow uid reqBody d w
              = ((403, UpgradeBody msg_limit_unlimited True (getSubscriptionStatus d uid)), d, w))
       \<and> (\<forall>u. getUser d uid = Some u \<and> subscriptionStatus u \<in> {PastDue, Cancelled} \<longrightarrow>
            ai_generate schema provider insertRow uid reqBody d w
              = ((402, PaymentBody msg_requires_payment True (getSubscriptionStatus d uid)), d, w)))"
  by (auto simp: ai_generate_def Let_def getSubscriptionStatus_def)

theorem ai_generate_gate_witness:
  "ai_generate acceptPrompt countingProvider textStore (js ''u1'') (js ''Make a bakery website'')
       (example_db blocked_with_credits) 0
     = ((402, PaymentBody msg_requires_payment True
              \<lparr>sub_planType = Enterprise, sub_status = Cancelled, isBlocked = True, canUseAi = False\<rparr>),
        example_db blocked_with_credits, 0)
   \<and> ai_generate acceptPrompt countingProvider textStore (js ''u1'') (js ''Make a bakery website'')
       (example_db exhausted_free) 0
     = ((403, UpgradeBody msg_limit_unlimited True
              \<lparr>sub_planType = Free, sub_status = StatusFree, isBlocked = False, canUseAi = False\<rparr>),
        example_db exhausted_free, 0)
   \<and> ai_generate promptRequired countingProvider textStore (js ''u1'') None
       (example_db exhausted_free) 0
     = ((400, MessageBody (js ''Required'')), example_db exhausted_free, 0)"
proof -
  have s: "acceptPrompt (js ''Make a bakery website'') = Inr (js ''Make a bakery website'')"
    by (simp add: acceptPrompt_def)
  have n: "promptRequired None = Inl (js ''Required'')"
    by (simp add: promptRequired_def)
  have b: "getSubscriptionStatus (example_db blocked_with_credits) (js ''u1'')
            = \<lparr>sub_planType = Enterprise, sub_status = Cancelled, isBlocked = True, canUseAi = False\<rparr>"
    by (simp add: getSubscriptionStatus_def getUser_def example_db_def blocked_with_credits_def)
  have e: "getSubscriptionStatus (example_db exhausted_free) (js ''u1'')
            = \<lparr>sub_planType = Free, sub_status = StatusFree, isBlocked = False, canUseAi = False\<rparr>"
    by (simp add: getSubscriptionStatus_def getUser_def example_db_def exhausted_free_def)
  have 1: "ai_generate acceptPrompt countingProvider textStore (js ''u1'') (js ''Make a bakery website'')
       (example_db blocked_with_credits) 0
     = ((402, PaymentBody msg_requires_payment True
              \<lparr>sub_planType = Enterprise, sub_status = Cancelled, isBlocked = True, canUseAi = False\<rparr>),
        example_db blocked_with_credits, 0)"
    using ai_generate_gate [where schema = acceptPrompt and reqBody = "js ''Make a bakery website''"
          and d = "example_db blocked_with_credits" and insertRow = textStore
          and uid = "js ''u1''" and provider = countingProvider and w = 0,
          THEN conjunct2, rule_format, OF s, THEN conjunct1]
    by (simp add: b)
  have 2: "ai_generate acceptPrompt countingProvider textStore (js ''u1'') (js ''Make a bakery website'')
       (example_db exhausted_free) 0
     = ((403, UpgradeBody msg_limit_unlimited True
              \<lparr>sub_planType = Free, sub_status = StatusFree, isBlocked = False, canUseAi = False\<rparr>),
        example_db exhausted_free, 0)"
    using ai_generate_gate [where schema = acceptPrompt and reqBody = "js ''Make a bakery website''"
          and d = "example_db exhausted_free" and insertRow = textStore
          and uid = "js ''u1''" and provider = countingProvider and w = 0,
          THEN conjunct2, rule_format, OF s, THEN conjunct2, THEN conjunct1]
    by (simp add: e)
  have 3: "ai_generate promptRequired countingProvider textStore (js ''u1'') None
       (example_db exhausted_free) 0
     = ((400, MessageBody (js ''Required'')), example_db exhausted_free, 0)"
    using ai_generate_gate [where schema = promptRequired and reqBody = None
          and d = "example_db exhausted_free" and insertRow = textStore
          and uid = "js ''u1''" and provider = countingProvider and w = 0,
          THEN conjunct1, rule_format, OF n] .
  show ?thesis by (intro conjI) (rule 1 2 3)+
qed

text \<open>
  C2 as stated fails: the account is blocked, and the request, whose body has no
  prompt, is answered 400 and not 402.
\<close>

theorem ai_generate_gate_counterexample:
  "isBlocked (getSubscriptionStatus (example_db blocked_with_credits) (js ''u1''))
   \<and> ai_generate promptRequired countingProvider textStore (js ''u1'') None
       (example_db blocked_with_credits) 0
     = ((400, MessageBody (js ''Required'')), example_db blocked_with_credits, 0)"
  by (simp add: ai_generate_def promptRequired_def getSubscriptionStatus_def getUser_def
      example_db_def blocked_with_credits_def)

text \<open>
  C4. For a free-plan account whose status is not blocked and a request whose body
  passes validation. When \<open>aiGenerationsUsed < aiGenerationsLimit\<close>: a request answered
  200 has the account's \<open>aiGenerationsUsed\<close> one higher (the only change to the
  \<open>users\<close> table) and one generation record appended, the row as the store returned
  it; and the request is answered 200 whenever the provider step succeeds and the store
  takes the row. When \<open>aiGenerationsUsed \<ge> aiGenerationsLimit\<close>, \<open>incrementAiUsage\<close>
  returns false and leaves the database as it was.
\<close>

theorem ai_generate_success_free:
  assumes "schema reqBody = Inr p"
    and "getUser d uid = Some u"
    and "planType u = Free"
    and "subscriptionStatus u \<notin> {PastDue, Cancelled}"
  shows "(aiGenerationsUsed u < aiGenerationsLimit u \<longrightarrow>
           (\<forall>body d' w'.
              ai_generate schema provider insertRow uid reqBody d w = ((200, body), d', w') \<longrightarrow>
              (\<exists>r t row.
                 provider p w = (Inr (r, t), w')
                 \<and> insertRow \<lparr>gen_userId = uid, gen_prompt = p, gen_result = r,
                               gen_tokensUsed = t\<rparr> = Inr row
                 \<and> body = ResultBody r t
                      \<lparr>usage_used = aiGenerationsUsed u + 1, usage_limit = aiGenerationsLimit u,
                       usage_remaining = aiGenerationsLimit u - (aiGenerationsUsed u + 1)\<rparr>
                 \<and> d' = d\<lparr>users := (users d)(uid \<mapsto>
                              u\<lparr>aiGenerationsUsed := aiGenerationsUsed u + 1\<rparr>),
                           aiGenerations := aiGenerations d @ [row]\<rparr>))
           \<and> (\<forall>r t w' row.
                provider p w = (Inr (r, t), w')
                \<and> insertRow \<lparr>gen_userId = uid, gen_prompt = p, gen_result = r,
                              gen_tokensUsed = t\<rparr> = Inr row \<longrightarrow>
                ai_generate schema provider insertRow uid reqBody d w
                  = ((200, ResultBody r t
                       \<lparr>usage_used = aiGenerationsUsed u + 1, usage_limit = aiGenerationsLimit u,
                        usage_remaining = aiGenerationsLimit u - (aiGenerationsUsed u + 1)\<rparr>),
                     d\<lparr>users := (users d)(uid \<mapsto>
                          u\<lparr>aiGenerationsUsed := aiGenerationsUsed u + 1\<rparr>),
                       aiGenerations := aiGenerations d @ [row]\<rparr>,
                     w')))
       \<and> (aiGenerationsUsed u \<ge> aiGenerationsLimit u \<longrightarrow> incrementAiUsage d uid = (False, d))"
proof (intro conjI impI allI)
  fix body d' w'
  assume lt: "aiGenerationsUsed u < aiGenerationsLimit u"
    and run: "ai_generate schema provider insertRow uid reqBody d w = ((200, body), d', w')"
  obtain out w1 where pw: "provider p w = (out, w1)" by (cases "provider p w")
  have gate: "\<not> isBlocked (getSubscriptionStatus d uid)" "canUseAi (getSubscriptionStatus d uid)"
    using assms lt by (auto simp: getSubscriptionStatus_def)
  have inc: "incrementAiUsage d uid
      = (True, d\<lparr>users := (users d)(uid \<mapsto> u\<lparr>aiGenerationsUsed := aiGenerationsUsed u + 1\<rparr>)\<rparr>)"
    using assms lt by (auto simp: incrementAiUsage_def)
  show "\<exists>r t row.
          provider p w = (Inr (r, t), w')
          \<and> insertRow \<lparr>gen_userId = uid, gen_prompt = p, gen_result = r, gen_tokensUsed = t\<rparr>
              = Inr row
          \<and> body = ResultBody r t
               \<lparr>usage_used = aiGenerationsUsed u + 1, usage_limit = aiGenerationsLimit u,
                usage_remaining = aiGenerationsLimit u - (aiGenerationsUsed u + 1)\<rparr>
          \<and> d' = d\<lparr>users := (users d)(uid \<mapsto>
                       u\<lparr>aiGenerationsUsed := aiGenerationsUsed u + 1\<rparr>),
                    aiGenerations := aiGenerations d @ [row]\<rparr>"
  proof (cases out)
    case (Inl e)
    then show ?thesis using run assms(1) gate pw by (simp add: ai_generate_def Let_def)
  next
    case (Inr rt)
    obtain r t where rt: "rt = (r, t)" by (cases rt)
    show ?thesis
    proof (cases "insertRow \<lparr>gen_userId = uid, gen_prompt = p, gen_result = r,
                              gen_tokensUsed = t\<rparr>")
      case (Inl err)
      then show ?thesis
        using run assms(1) gate pw Inr rt inc
        by (simp add: ai_generate_def Let_def logAiGeneration_def)
    next
      case ins: (Inr row)
      have "w1 = w' \<and> body = ResultBody r t
               \<lparr>usage_used = aiGenerationsUsed u + 1, usage_limit = aiGenerationsLimit u,
                usage_remaining = aiGenerationsLimit u - (aiGenerationsUsed u + 1)\<rparr>
          \<and> d' = d\<lparr>users := (users d)(uid \<mapsto>
                       u\<lparr>aiGenerationsUsed := aiGenerationsUsed u + 1\<rparr>),
                    aiGenerations := aiGenerations d @ [row]\<rparr>"
        using run assms(1) gate pw Inr rt inc ins lt
        by (auto simp: ai_generate_def Let_def logAiGeneration_def getAiUsage_def getUser_def)
      then show ?thesis
        using pw Inr rt ins by (intro exI [of _ r] exI [of _ t] exI [of _ row]) simp
    qed
  qed
next
  fix r t w' row
  assume lt: "aiGenerationsUsed u < aiGenerationsLimit u"
    and ok: "provider p w = (Inr (r, t), w')
       \<and> insertRow \<lparr>gen_userId = uid, gen_prompt = p, gen_result = r, gen_tokensUsed = t\<rparr>
           = Inr row"
  show "ai_generate schema provider insertRow uid reqBody d w
          = ((200, ResultBody r t
               \<lparr>usage_used = aiGenerationsUsed u + 1, usage_limit = aiGenerationsLimit u,
                usage_remaining = aiGenerationsLimit u - (aiGenerationsUsed u + 1)\<rparr>),
             d\<lparr>users := (users d)(uid \<mapsto> u\<lparr>aiGenerationsUsed := aiGenerationsUsed u + 1\<rparr>),
               aiGenerations := aiGenerations d @ [row]\<rparr>,
             w')"
    using assms lt ok
    by (auto simp: ai_generate_def Let_def getSubscriptionStatus_def incrementAiUsage_def
        logAiGeneration_def getAiUsage_def getUser_def)
next
  assume "aiGenerationsLimit u \<le> aiGenerationsUsed u"
  then show "incrementAiUsage d uid = (False, d)"
    using assms by (auto simp: incrementAiUsage_def)
qed

theorem ai_generate_success_free_witness:
  "ai_generate acceptPrompt countingProvider textStore (js ''u1'') (js ''Make a bakery website'')
       (example_db fresh_free) 0
     = ((200, ResultBody (js ''<p>ok</p>'') 7
              \<lparr>usage_used = 1, usage_limit = 3, usage_remaining = 2\<rparr>),
        \<lparr>users = [js ''u1'' \<mapsto> fresh_free\<lparr>aiGenerationsUsed := 1\<rparr>],
         aiGenerations = [\<lparr>gen_userId = js ''u1'', gen_prompt = js ''Make a bakery website'',
                           gen_result = js ''<p>ok</p>'', gen_tokensUsed = 7\<rparr>]\<rparr>,
        1)
   \<and> (\<exists>r t row.
         countingProvider (js ''Make a bakery website'') 0 = (Inr (r, t), 1)
         \<and> textStore \<lparr>gen_userId = js ''u1'', gen_prompt = js ''Make a bakery website'',
                        gen_result = r, gen_tokensUsed = t\<rparr> = Inr row
         \<and> ResultBody (js ''<p>ok</p>'') 7 \<lparr>usage_used = 1, usage_limit = 3, usage_remaining = 2\<rparr>
             = ResultBody r t \<lparr>usage_used = 1, usage_limit = 3, usage_remaining = 2\<rparr>
         \<and> \<lparr>users = [js ''u1'' \<mapsto> fresh_free\<lparr>aiGenerationsUsed := 1\<rparr>],
             aiGenerations = [\<lparr>gen_userId = js ''u1'', gen_prompt = js ''Make a bakery website'',
                               gen_result = js ''<p>ok</p>'', gen_tokensUsed = 7\<rparr>]\<rparr>
             = \<lparr>users = [js ''u1'' \<mapsto> fresh_free\<lparr>aiGenerationsUsed := 1\<rparr>],
                aiGenerations = [row]\<rparr>)
   \<and> incrementAiUsage (example_db exhausted_free) (js ''u1'') = (False, example_db exhausted_free)"
proof -
  have s: "acceptPrompt (js ''Make a bakery website'') = Inr (js ''Make a bakery website'')"
    by (simp add: acceptPrompt_def)
  have h: "getUser (example_db fresh_free) (js ''u1'') = Some fresh_free"
    by (simp add: getUser_def example_db_def)
  have h': "getUser (example_db exhausted_free) (js ''u1'') = Some exhausted_free"
    by (simp add: getUser_def example_db_def)
  have f: "planType fresh_free = Free" "subscriptionStatus fresh_free \<notin> {PastDue, Cancelled}"
    "aiGenerationsUsed fresh_free < aiGenerationsLimit fresh_free"
    by (simp_all add: fresh_free_def)
  have x: "planType exhausted_free = Free" "subscriptionStatus exhausted_free \<notin> {PastDue, Cancelled}"
    "aiGenerationsUsed exhausted_free \<ge> aiGenerationsLimit exhausted_free"
    by (simp_all add: exhausted_free_def)
  have pr: "countingProvider (js ''Make a bakery website'') 0 = (Inr (js ''<p>ok</p>'', 7), 1)
      \<and> textStore \<lparr>gen_userId = js ''u1'', gen_prompt = js ''Make a bakery website'',
                     gen_result = js ''<p>ok</p>'', gen_tokensUsed = 7\<rparr>
          = Inr \<lparr>gen_userId = js ''u1'', gen_prompt = js ''Make a bakery website'',
                 gen_result = js ''<p>ok</p>'', gen_tokensUsed = 7\<rparr>"
    by (simp add: countingProvider_def textStore_ok_row)
  note T = ai_generate_success_free [where schema = acceptPrompt and provider = countingProvider
        and insertRow = textStore and w = 0, OF s h f(1) f(2)]
  have 1: "ai_generate acceptPrompt countingProvider textStore (js ''u1'') (js ''Make a bakery website'')
       (example_db fresh_free) 0
     = ((200, ResultBody (js ''<p>ok</p>'') 7
              \<lparr>usage_used = 1, usage_limit = 3, usage_remaining = 2\<rparr>),
        \<lparr>users = [js ''u1'' \<mapsto> fresh_free\<lparr>aiGenerationsUsed := 1\<rparr>],
         aiGenerations = [\<lparr>gen_userId = js ''u1'', gen_prompt = js ''Make a bakery website'',
                           gen_result = js ''<p>ok</p>'', gen_tokensUsed = 7\<rparr>]\<rparr>,
        1)"
    using T [THEN conjunct1, THEN mp, OF f(3), THEN conjunct2, rule_format, OF pr]
    by (simp add: fresh_free_def example_db_def)
  have 2: "\<exists>r t row.
         countingProvider (js ''Make a bakery website'') 0 = (Inr (r, t), 1)
         \<and> textStore \<lparr>gen_userId = js ''u1'', gen_prompt = js ''Make a bakery website'',
                        gen_result = r, gen_tokensUsed = t\<rparr> = Inr row
         \<and> ResultBody (js ''<p>ok</p>'') 7 \<lparr>usage_used = 1, usage_limit = 3, usage_remaining = 2\<rparr>
             = ResultBody r t \<lparr>usage_used = 1, usage_limit = 3, usage_remaining = 2\<rparr>
         \<and> \<lparr>users = [js ''u1'' \<mapsto> fresh_free\<lparr>aiGenerationsUsed := 1\<rparr>],
             aiGenerations = [\<lparr>gen_userId = js ''u1'', gen_prompt = js ''Make a bakery website'',
                               gen_result = js ''<p>ok</p>'', gen_tokensUsed = 7\<rparr>]\<rparr>
             = \<lparr>users = [js ''u1'' \<mapsto> fresh_free\<lparr>aiGenerationsUsed := 1\<rparr>],
                aiGenerations = [row]\<rparr>"
    using T [THEN conjunct1, THEN mp, OF f(3), THEN conjunct1, rule_format, OF 1]
    by (simp add: fresh_free_def example_db_def)
  have 3: "incrementAiUsage (example_db exhausted_free) (js ''u1'') = (False, example_db exhausted_free)"
    using ai_generate_success_free [where schema = acceptPrompt and provider = countingProvider
        and insertRow = textStore and w = 0, OF s h' x(1) x(2), THEN conjunct2, THEN mp, OF x(3)] .
  show ?thesis by (intro conjI) (rule 1 2 3)+
qed

text \<open>
  What the store does with the prompt shows in the outcome. A prompt with a surrogate
  outside a pair is answered 200 and stored with U+FFFD in its place. A prompt that
  holds the code unit 0 is refused by the store: the response is 500, after the
  account's \<open>aiGenerationsUsed\<close> has been raised, and no generation record is written.
\<close>

lemma ai_generate_insert_refused:
  assumes "schema reqBody = Inr p"
    and "\<not> isBlocked (getSubscriptionStatus d uid)"
    and "canUseAi (getSubscriptionStatus d uid)"
    and "provider p w = (Inr (r, t), w')"
    and "incrementAiUsage d uid = (True, d')"
    and "insertRow \<lparr>gen_userId = uid, gen_prompt = p, gen_result = r, gen_tokensUsed = t\<rparr> = Inl err"
  shows "ai_generate schema provider insertRow uid reqBody d w
           = ((500, MessageBody msg_internal), d', w')"
  using assms by (simp add: ai_generate_def Let_def logAiGeneration_def)

lemma ai_generate_nul_prompt:
  "ai_generate acceptPrompt countingProvider textStore (js ''u1'') (js ''Shop '' @ [0])
       (example_db fresh_free) 0
     = ((500, MessageBody msg_internal),
        \<lparr>users = [js ''u1'' \<mapsto> fresh_free\<lparr>aiGenerationsUsed := 1\<rparr>], aiGenerations = []\<rparr>,
        1)"
  by (simp add: ai_generate_def Let_def acceptPrompt_def countingProvider_def
      getSubscriptionStatus_def getUser_def example_db_def fresh_free_def incrementAiUsage_def
      logAiGeneration_def textStore_nul_row)

lemma ai_generate_surrogate_prompt:
  "ai_generate acceptPrompt countingProvider textStore (js ''u1'') (js ''Shop '' @ [0xD83D])
       (example_db fresh_free) 0
     = ((200, ResultBody (js ''<p>ok</p>'') 7
              \<lparr>usage_used = 1, usage_limit = 3, usage_remaining = 2\<rparr>),
        \<lparr>users = [js ''u1'' \<mapsto> fresh_free\<lparr>aiGenerationsUsed := 1\<rparr>],
         aiGenerations = [\<lparr>gen_userId = js ''u1'', gen_prompt = js ''Shop '' @ [0xFFFD],
                           gen_result = js ''<p>ok</p>'', gen_tokensUsed = 7\<rparr>]\<rparr>,
        1)"
  by (simp add: ai_generate_def Let_def acceptPrompt_def countingProvider_def
      getSubscriptionStatus_def getUser_def example_db_def fresh_free_def incrementAiUsage_def
      logAiGeneration_def getAiUsage_def textStore_surrogate_row)

text \<open>
  C7. For a request that passes the subscription gate, when the provider step fails
  the response is 503 with the retry message and the database is as it was: no usage
  is counted and no generation record is written.
\<close>

theorem ai_generate_provider_failure:
  assumes "schema reqBody = Inr p"
    and "\<not> isBlocked (getSubscriptionStatus d uid)"
    and "canUseAi (getSubscriptionStatus d uid)"
    and "provider p w = (Inl e, w')"
  shows "ai_generate schema provider insertRow uid reqBody d w = ((503, MessageBody msg_unavailable), d, w')"
  using assms by (simp add: ai_generate_def Let_def)

theorem ai_generate_provider_failure_witness:
  "ai_generate acceptPrompt failingProvider textStore (js ''u1'') (js ''Make a bakery website'')
       (example_db fresh_free) 0
     = ((503, MessageBody msg_unavailable), example_db fresh_free, 1)
   \<and> getAiUsage (example_db fresh_free) (js ''u1'')
     = \<lparr>usage_used = 0, usage_limit = 3, usage_remaining = 3\<rparr>"
proof -
  have s: "acceptPrompt (js ''Make a bakery website'') = Inr (js ''Make a bakery website'')"
    by (simp add: acceptPrompt_def)
  have g: "getSubscriptionStatus (example_db fresh_free) (js ''u1'')
            = \<lparr>sub_planType = Free, sub_status = Active, isBlocked = False, canUseAi = True\<rparr>"
    by (simp add: getSubscriptionStatus_def getUser_def example_db_def fresh_free_def)
  have pr: "failingProvider (js ''Make a bakery website'') 0 = (Inl (), 1)"
    by (simp add: failingProvider_def)
  have nb: "\<not> isBlocked (getSubscriptionStatus (example_db fresh_free) (js ''u1''))"
    and can: "canUseAi (getSubscriptionStatus (example_db fresh_free) (js ''u1''))"
    by (simp_all add: g)
  have u: "getAiUsage (example_db fresh_free) (js ''u1'')
     = \<lparr>usage_used = 0, usage_limit = 3, usage_remaining = 3\<rparr>"
    by (simp add: getAiUsage_def getUser_def example_db_def fresh_free_def)
  show ?thesis
    using ai_generate_provider_failure [where schema = acceptPrompt and provider = failingProvider
        and w = 0 and w' = 1 and e = "()", OF s nb can] pr u by simp
qed

text \<open>
  C10, as amended. For a request whose caller has no row in \<open>users\<close>: the subscription
  snapshot is the default one (free, not blocked, \<open>canUseAi\<close> true) and
  \<open>incrementAiUsage\<close> returns false. A request whose body the schema refuses is
  answered 400 before the gate. A request whose body passes validation passes the gate
  and, with the source's placeholder as with any provider step that succeeds, is
  answered the 403 with the limit message, with the database as it was (no counter and
  no generation record written, the store not reached).
\<close>

theorem ai_generate_missing_account:
  assumes "getUser d uid = None"
  shows "getSubscriptionStatus d uid
           = \<lparr>sub_planType = Free, sub_status = StatusFree, isBlocked = False, canUseAi = True\<rparr>
       \<and> incrementAiUsage d uid = (False, d)
       \<and> (\<forall>m. schema reqBody = Inl m \<longrightarrow>
             ai_generate schema provider insertRow uid reqBody d w = ((400, MessageBody m), d, w))
       \<and> (\<forall>p. schema reqBody = Inr p \<longrightarrow>
             ai_generate schema
                (placeholderProvider :: js_string \<Rightarrow> 'w \<Rightarrow> ('e + js_string \<times> int) \<times> 'w)
                insertRow uid reqBody d w
               = ((403, MessageBody msg_limit_more), d, w)
             \<and> (\<forall>r t w'. (provider :: js_string \<Rightarrow> 'w \<Rightarrow> ('e + js_string \<times> int) \<times> 'w) p w
                            = (Inr (r, t), w') \<longrightarrow>
                   ai_generate schema provider insertRow uid reqBody d w
                     = ((403, MessageBody msg_limit_more), d, w')))"
  using assms
  by (auto simp: ai_generate_def Let_def getSubscriptionStatus_def incrementAiUsage_def
      placeholderProvider_def)

theorem ai_generate_missing_account_witness:
  "getUser (example_db fresh_free) (js ''u2'') = None
   \<and> ai_generate acceptPrompt
        (placeholderProvider :: js_string \<Rightarrow> nat \<Rightarrow> (unit + js_string \<times> int) \<times> nat) textStore
        (js ''u2'') (js ''Make a bakery website'') (example_db fresh_free) (0::nat)
     = ((403, MessageBody msg_limit_more), example_db fresh_free, 0)
   \<and> ai_generate acceptPrompt countingProvider textStore (js ''u2'') (js ''Make a bakery website'')
       (example_db fresh_free) 0
     = ((403, MessageBody msg_limit_more), example_db fresh_free, 1)
   \<and> ai_generate promptRequired countingProvider textStore (js ''u2'') None
       (example_db fresh_free) 0
     = ((400, MessageBody (js ''Required'')), example_db fresh_free, 0)"
proof -
  have s: "acceptPrompt (js ''Make a bakery website'') = Inr (js ''Make a bakery website'')"
    by (simp add: acceptPrompt_def)
  have n: "promptRequired None = Inl (js ''Required'')"
    by (simp add: promptRequired_def)
  have h: "getUser (example_db fresh_free) (js ''u2'') = None"
    by (simp add: getUser_def example_db_def js_def)
  have pr: "countingProvider (js ''Make a bakery website'') 0 = (Inr (js ''<p>ok</p>'', 7), 1)"
    by (simp add: countingProvider_def)
  note T = ai_generate_missing_account [where schema = acceptPrompt and w = "0::nat"
        and provider = countingProvider and insertRow = textStore
        and reqBody = "js ''Make a bakery website''", OF h,
        THEN conjunct2, THEN conjunct2, THEN conjunct2, rule_format, OF s]
  have 1: "ai_generate acceptPrompt
        (placeholderProvider :: js_string \<Rightarrow> nat \<Rightarrow> (unit + js_string \<times> int) \<times> nat) textStore
        (js ''u2'') (js ''Make a bakery website'') (example_db fresh_free) (0::nat)
     = ((403, MessageBody msg_limit_more), example_db fresh_free, 0)"
    using T [THEN conjunct1] .
  have 2: "ai_generate acceptPrompt countingProvider textStore (js ''u2'') (js ''Make a bakery website'')
       (example_db fresh_free) 0
     = ((403, MessageBody msg_limit_more), example_db fresh_free, 1)"
    using T [THEN conjunct2, rule_format, OF pr] .
  have 3: "ai_generate promptRequired countingProvider textStore (js ''u2'') None
       (example_db fresh_free) 0
     = ((400, MessageBody (js ''Required'')), example_db fresh_free, 0)"
    using ai_generate_missing_account [where schema = promptRequired and w = "0::nat"
        and provider = countingProvider and insertRow = textStore and reqBody = None, OF h,
        THEN conjunct2, THEN conjunct2, THEN conjunct1, rule_format, OF n] .
  show ?thesis by (intro conjI) (rule h 1 2 3)+
qed

text \<open>
  C10 as stated fails: the caller has no row, and the request, whose body has no
  prompt, is answered 400 and not 403.
\<close>

theorem ai_generate_missing_account_counterexample:
  "getUser (example_db fresh_free) (js ''u2'') = None
   \<and> ai_generate promptRequired
        (placeholderProvider :: js_string \<Rightarrow> nat \<Rightarrow> (unit + js_string \<times> int) \<times> nat) textStore
        (js ''u2'') None (example_db fresh_free) (0::nat)
     = ((400, MessageBody (js ''Required'')), example_db fresh_free, 0)"
  by (simp add: ai_generate_def promptRequired_def getUser_def example_db_def js_def)

section \<open>Token estimate\<close>

lemma length_js: "length (js s) = length s"
  by (simp add: js_def)

lemma floor_three_halves: "\<lfloor>real n * 3 / 2\<rfloor> = (3 * int n) div 2"
proof -
  have "real n * 3 / 2 = real_of_int (3 * int n) / real_of_int 2" by simp
  then show ?thesis by (metis floor_divide_of_int_eq)
qed

lemma ceiling_three_halves: "\<lceil>real n * 3 / 2\<rceil> = (3 * int n + 1) div 2"
proof -
  have "real n * 3 / 2 = real_of_int (3 * int n) / real_of_int 2" by simp
  then have "\<lceil>real n * 3 / 2\<rceil> = - ((- (3 * int n)) div 2)"
    by (metis ceiling_def floor_divide_of_int_eq minus_divide_left of_int_minus)
  then show ?thesis by linarith
qed

lemma textStore_placeholder_row:
  "textStore \<lparr>gen_userId = js ''u1'', gen_prompt = js ''Make a bakery website'',
       gen_result = js ''Generated content for: '' @ js ''Make a bakery website'' @
         js ''. This is a placeholder - connect OpenAI API for real AI generation.'',
       gen_tokensUsed = 31\<rparr>
     = Inr \<lparr>gen_userId = js ''u1'', gen_prompt = js ''Make a bakery website'',
          gen_result = js ''Generated content for: '' @ js ''Make a bakery website'' @
            js ''. This is a placeholder - connect OpenAI API for real AI generation.'',
          gen_tokensUsed = 31\<rparr>"
  by code_simp

text \<open>
  C6, as amended. For a request with a valid body that the handler answers with 200,
  the \<open>tokensUsed\<close> of the response is the floor of \<open>prompt.length * 1.5\<close>, that is
  \<open>3 * prompt.length\<close> divided by 2 and rounded down.
\<close>

theorem ai_generate_tokensUsed:
  assumes "schema reqBody = Inr p"
    and "ai_generate schema placeholderProvider insertRow uid reqBody d w = ((200, ResultBody r t us), d', w')"
  shows "t = \<lfloor>real (length p) * 1.5\<rfloor> \<and> t = (3 * int (length p)) div 2"
  using assms
  by (auto simp: ai_generate_def Let_def placeholderProvider_def floor_three_halves
      split: if_splits prod.splits bool.splits sum.splits)

theorem ai_generate_tokensUsed_witness:
  "ai_generate acceptPrompt placeholderProvider textStore (js ''u1'') (js ''Make a bakery website'')
       (example_db fresh_free) (0::nat)
     = ((200, ResultBody
           (js ''Generated content for: '' @ js ''Make a bakery website'' @
            js ''. This is a placeholder - connect OpenAI API for real AI generation.'')
           31 \<lparr>usage_used = 1, usage_limit = 3, usage_remaining = 2\<rparr>),
        \<lparr>users = [js ''u1'' \<mapsto> fresh_free\<lparr>aiGenerationsUsed := 1\<rparr>],
         aiGenerations = [\<lparr>gen_userId = js ''u1'', gen_prompt = js ''Make a bakery website'',
            gen_result = js ''Generated content for: '' @ js ''Make a bakery website'' @
              js ''. This is a placeholder - connect OpenAI API for real AI generation.'',
            gen_tokensUsed = 31\<rparr>]\<rparr>,
        0)
   \<and> (31::int) = \<lfloor>real (length (js ''Make a bakery website'')) * 1.5\<rfloor>"
proof -
  have s: "acceptPrompt (js ''Make a bakery website'') = Inr (js ''Make a bakery website'')"
    by (simp add: acceptPrompt_def)
  have run: "ai_generate acceptPrompt placeholderProvider textStore (js ''u1'') (js ''Make a bakery website'')
       (example_db fresh_free) (0::nat)
     = ((200, ResultBody
           (js ''Generated content for: '' @ js ''Make a bakery website'' @
            js ''. This is a placeholder - connect OpenAI API for real AI generation.'')
           31 \<lparr>usage_used = 1, usage_limit = 3, usage_remaining = 2\<rparr>),
        \<lparr>users = [js ''u1'' \<mapsto> fresh_free\<lparr>aiGenerationsUsed := 1\<rparr>],
         aiGenerations = [\<lparr>gen_userId = js ''u1'', gen_prompt = js ''Make a bakery website'',
            gen_result = js ''Generated content for: '' @ js ''Make a bakery website'' @
              js ''. This is a placeholder - connect OpenAI API for real AI generation.'',
            gen_tokensUsed = 31\<rparr>]\<rparr>,
        0)"
    by (simp add: ai_generate_def Let_def placeholderProvider_def floor_three_halves
        length_js acceptPrompt_def getSubscriptionStatus_def getUser_def example_db_def
        fresh_free_def incrementAiUsage_def logAiGeneration_def getAiUsage_def
        textStore_placeholder_row)
  show ?thesis
    using run ai_generate_tokensUsed [OF s run] by simp
qed

text \<open>
  C6 as stated fails: for the 21 code units of this prompt the handler answers with
  \<open>tokensUsed = 31\<close>, and the ceiling of \<open>21 * 1.5\<close> is 32.
\<close>

theorem ai_generate_tokensUsed_counterexample:
  "ai_generate acceptPrompt placeholderProvider textStore (js ''u1'') (js ''Make a bakery website'')
       (example_db fresh_free) (0::nat)
     = ((200, ResultBody
           (js ''Generated content for: '' @ js ''Make a bakery website'' @
            js ''. This is a placeholder - connect OpenAI API for real AI generation.'')
           31 \<lparr>usage_used = 1, usage_limit = 3, usage_remaining = 2\<rparr>),
        \<lparr>users = [js ''u1'' \<mapsto> fresh_free\<lparr>aiGenerationsUsed := 1\<rparr>],
         aiGenerations = [\<lparr>gen_userId = js ''u1'', gen_prompt = js ''Make a bakery website'',
            gen_result = js ''Generated content for: '' @ js ''Make a bakery website'' @
              js ''. This is a placeholder - connect OpenAI API for real AI generation.'',
            gen_tokensUsed = 31\<rparr>]\<rparr>,
        0)
   \<and> \<lceil>real (length (js ''Make a bakery website'')) * 1.5\<rceil> = 32"
  by (simp add: ai_generate_def Let_def placeholderProvider_def floor_three_halves
      ceiling_three_halves length_js acceptPrompt_def getSubscriptionStatus_def getUser_def
      example_db_def fresh_free_def incrementAiUsage_def logAiGeneration_def getAiUsage_def
        textStore_placeholder_row)

section \<open>Lemmas on the matcher\<close>

lemma js_Nil [simp]: "js [] = []"
  by (simp add: js_def)

lemma js_Cons: "js (c # p) = of_char c # js p"
  by (simp add: js_def)

lemma length_js' [simp]: "length (js s) = length s"
  by (simp add: js_def)

lemma rx_match_lit:
  "rx_match (lit p) s k = (if prefix (js p) s then k (drop (length p) s) else None)"
proof (induction p arbitrary: s)
  case Nil
  then show ?case by (simp add: lit_def)
next
  case (Cons c p)
  have step: "lit (c # p) = Cat (Chr (\<lambda>x. x = of_char c)) (lit p)"
    by (simp add: lit_def)
  show ?case
    by (cases s) (simp_all add: step Cons.IH js_Cons)
qed

lemma same_ci_Nil [simp]: "same_ci [] b = (b = [])" "same_ci a [] = (a = [])"
  by (auto simp: same_ci_def)

lemma same_ci_Cons:
  "same_ci (a # as) (b # bs) = (ascii_upper a = ascii_upper b \<and> same_ci as bs)"
  by (simp add: same_ci_def)

lemma same_ci_length: "same_ci a b \<Longrightarrow> length a = length b"
  unfolding same_ci_def by (rule map_eq_imp_length_eq)

lemma rx_match_lit_i:
  "rx_match (lit_i p) s k =
     (if same_ci (take (length p) s) (js p) then k (drop (length p) s) else None)"
proof (induction p arbitrary: s)
  case Nil
  then show ?case by (simp add: lit_i_def)
next
  case (Cons c p)
  have step: "lit_i (c # p) = Cat (Chr (\<lambda>x. ascii_upper x = ascii_upper (of_char c))) (lit_i p)"
    by (simp add: lit_i_def)
  show ?case
    by (cases s) (simp_all add: step Cons.IH js_Cons same_ci_Cons)
qed

lemma rx_match_StarG_Some:
  "rx_match (StarG P) s k = Some res \<Longrightarrow> \<exists>w s'. s = w @ s' \<and> (\<forall>c \<in> set w. P c) \<and> k s' = Some res"
proof (induction s)
  case Nil
  then show ?case by simp
next
  case (Cons c cs)
  show ?case
  proof (cases "P c")
    case True
    show ?thesis
    proof (cases "rx_match (StarG P) cs k")
      case None
      then have "k (c # cs) = Some res" using Cons.prems True by simp
      then show ?thesis by (intro exI[of _ "[]"] exI[of _ "c # cs"]) simp
    next
      case (Some r)
      then have "rx_match (StarG P) cs k = Some res" using Cons.prems True by simp
      then obtain w s' where w: "cs = w @ s'" "\<forall>c \<in> set w. P c" "k s' = Some res"
        using Cons.IH by blast
      show ?thesis using w True by (intro exI[of _ "c # w"] exI[of _ s']) simp
    qed
  next
    case False
    then have "k (c # cs) = Some res" using Cons.prems by simp
    then show ?thesis by (intro exI[of _ "[]"] exI[of _ "c # cs"]) simp
  qed
qed

lemma rx_match_StarG_None:
  "(rx_match (StarG P) s k = None) = (\<forall>w s'. s = w @ s' \<and> (\<forall>c \<in> set w. P c) \<longrightarrow> k s' = None)"
proof (induction s)
  case Nil
  then show ?case by simp
next
  case (Cons c cs)
  show ?case
  proof
    assume a: "rx_match (StarG P) (c # cs) k = None"
    show "\<forall>w s'. c # cs = w @ s' \<and> (\<forall>c \<in> set w. P c) \<longrightarrow> k s' = None"
    proof (intro allI impI)
      fix w s' assume b: "c # cs = w @ s' \<and> (\<forall>c \<in> set w. P c)"
      have here: "k (c # cs) = None"
        using a by (cases "P c"; cases "rx_match (StarG P) cs k") simp_all
      show "k s' = None"
      proof (cases w)
        case Nil
        then have "s' = c # cs" using b by simp
        then show ?thesis using here by simp
      next
        case (Cons x w')
        then have pc: "P c" and cs: "cs = w' @ s'" and all: "\<forall>c \<in> set w'. P c" using b by simp_all
        have "rx_match (StarG P) cs k = None"
          using a pc by (cases "rx_match (StarG P) cs k") simp_all
        then have "\<forall>w s'. cs = w @ s' \<and> (\<forall>c \<in> set w. P c) \<longrightarrow> k s' = None"
          using Cons.IH by simp
        then show ?thesis using cs all by blast
      qed
    qed
  next
    assume a: "\<forall>w s'. c # cs = w @ s' \<and> (\<forall>c \<in> set w. P c) \<longrightarrow> k s' = None"
    have "c # cs = [] @ (c # cs) \<and> (\<forall>c \<in> set []. P c)" by simp
    then have here: "k (c # cs) = None" using a by blast
    show "rx_match (StarG P) (c # cs) k = None"
    proof (cases "P c")
      case True
      have "\<forall>w s'. cs = w @ s' \<and> (\<forall>c \<in> set w. P c) \<longrightarrow> k s' = None"
      proof (intro allI impI)
        fix w s' assume "cs = w @ s' \<and> (\<forall>c \<in> set w. P c)"
        then have "c # cs = (c # w) @ s' \<and> (\<forall>x \<in> set (c # w). P x)" using True by simp
        then show "k s' = None" using a by blast
      qed
      then have "rx_match (StarG P) cs k = None" using Cons.IH by simp
      then show ?thesis using here True by simp
    next
      case False
      then show ?thesis using here by simp
    qed
  qed
qed

lemma rx_match_StarL_Some:
  "rx_match (StarL P) s k = Some res \<Longrightarrow>
     \<exists>w s'. s = w @ s' \<and> (\<forall>c \<in> set w. P c) \<and> k s' = Some res
            \<and> (\<forall>w1 w2. w = w1 @ w2 \<and> w2 \<noteq> [] \<longrightarrow> k (w2 @ s') = None)"
proof (induction s)
  case Nil
  then have "k [] = Some res" by simp
  then show ?case by (intro exI[of _ "[]"]) simp
next
  case (Cons c cs)
  show ?case
  proof (cases "k (c # cs)")
    case (Some r)
    then have "k (c # cs) = Some res" using Cons.prems by simp
    then show ?thesis by (intro exI[of _ "[]"] exI[of _ "c # cs"]) simp
  next
    case None
    have pc: "P c" using Cons.prems None by (cases "P c") simp_all
    then have rec: "rx_match (StarL P) cs k = Some res" using Cons.prems None by simp
    then obtain w s' where w: "cs = w @ s'" "\<forall>c \<in> set w. P c" "k s' = Some res"
      "\<forall>w1 w2. w = w1 @ w2 \<and> w2 \<noteq> [] \<longrightarrow> k (w2 @ s') = None"
      using Cons.IH by blast
    have min: "\<forall>w1 w2. c # w = w1 @ w2 \<and> w2 \<noteq> [] \<longrightarrow> k (w2 @ s') = None"
    proof (intro allI impI)
      fix w1 w2 assume h: "c # w = w1 @ w2 \<and> w2 \<noteq> []"
      show "k (w2 @ s') = None"
      proof (cases w1)
        case Nil
        then have "w2 @ s' = c # cs" using h w(1) by simp
        then show ?thesis using None by simp
      next
        case (Cons y w1')
        then have "w = w1' @ w2" using h by simp
        then show ?thesis using w(4) h by blast
      qed
    qed
    show ?thesis using w(1,2,3) pc min by (intro exI[of _ "c # w"] exI[of _ s']) simp
  qed
qed

lemma rx_match_StarL_None:
  "(rx_match (StarL P) s k = None) = (\<forall>w s'. s = w @ s' \<and> (\<forall>c \<in> set w. P c) \<longrightarrow> k s' = None)"
proof (induction s)
  case Nil
  then show ?case by simp
next
  case (Cons c cs)
  show ?case
  proof
    assume a: "rx_match (StarL P) (c # cs) k = None"
    have here: "k (c # cs) = None"
      using a by (cases "k (c # cs)") simp_all
    show "\<forall>w s'. c # cs = w @ s' \<and> (\<forall>c \<in> set w. P c) \<longrightarrow> k s' = None"
    proof (intro allI impI)
      fix w s' assume b: "c # cs = w @ s' \<and> (\<forall>c \<in> set w. P c)"
      show "k s' = None"
      proof (cases w)
        case Nil
        then have "s' = c # cs" using b by simp
        then show ?thesis using here by simp
      next
        case (Cons x w')
        then have pc: "P c" and cs: "cs = w' @ s'" and all: "\<forall>c \<in> set w'. P c" using b by simp_all
        have "rx_match (StarL P) cs k = None"
          using a pc here by simp
        then have "\<forall>w s'. cs = w @ s' \<and> (\<forall>c \<in> set w. P c) \<longrightarrow> k s' = None"
          using Cons.IH by simp
        then show ?thesis using cs all by blast
      qed
    qed
  next
    assume a: "\<forall>w s'. c # cs = w @ s' \<and> (\<forall>c \<in> set w. P c) \<longrightarrow> k s' = None"
    have "c # cs = [] @ (c # cs) \<and> (\<forall>c \<in> set []. P c)" by simp
    then have here: "k (c # cs) = None" using a by blast
    show "rx_match (StarL P) (c # cs) k = None"
    proof (cases "P c")
      case True
      have "\<forall>w s'. cs = w @ s' \<and> (\<forall>c \<in> set w. P c) \<longrightarrow> k s' = None"
      proof (intro allI impI)
        fix w s' assume "cs = w @ s' \<and> (\<forall>c \<in> set w. P c)"
        then have "c # cs = (c # w) @ s' \<and> (\<forall>x \<in> set (c # w). P x)" using True by simp
        then show "k s' = None" using a by blast
      qed
      then have "rx_match (StarL P) cs k = None" using Cons.IH by simp
      then show ?thesis using here True by simp
    next
      case False
      then show ?thesis using here by simp
    qed
  qed
qed

lemma rx_exec_Some:
  "rx_exec r s = Some (s', res) \<Longrightarrow>
     \<exists>pre. s = pre @ s' \<and> rx_match_here r s' = Some res
          \<and> (\<forall>p1 p2. pre = p1 @ p2 \<and> p2 \<noteq> [] \<longrightarrow> rx_match_here r (p2 @ s') = None)"
proof (induction s)
  case Nil
  then have "s' = [] \<and> rx_match_here r [] = Some res"
    by (cases "rx_match_here r []") simp_all
  then show ?case by simp
next
  case (Cons c cs)
  show ?case
  proof (cases "rx_match_here r (c # cs)")
    case None
    then have "rx_exec r cs = Some (s', res)" using Cons.prems by simp
    then obtain pre where pre: "cs = pre @ s'" "rx_match_here r s' = Some res"
      "\<forall>p1 p2. pre = p1 @ p2 \<and> p2 \<noteq> [] \<longrightarrow> rx_match_here r (p2 @ s') = None"
      using Cons.IH by blast
    have left: "\<forall>p1 p2. c # pre = p1 @ p2 \<and> p2 \<noteq> [] \<longrightarrow> rx_match_here r (p2 @ s') = None"
    proof (intro allI impI)
      fix p1 p2 assume h: "c # pre = p1 @ p2 \<and> p2 \<noteq> []"
      show "rx_match_here r (p2 @ s') = None"
      proof (cases p1)
        case Nil
        then have "p2 @ s' = c # cs" using h pre(1) by simp
        then show ?thesis using None by simp
      next
        case (Cons y p1')
        then have "pre = p1' @ p2" using h by simp
        then show ?thesis using pre(3) h by blast
      qed
    qed
    show ?thesis using pre(1,2) left by (intro exI[of _ "c # pre"]) simp
  next
    case (Some a)
    then have "s' = c # cs" "res = a" using Cons.prems by simp_all
    then show ?thesis using Some by (intro exI[of _ "[]"]) simp
  qed
qed

lemma rx_exec_None:
  "(rx_exec r s = None) = (\<forall>pre s'. s = pre @ s' \<longrightarrow> rx_match_here r s' = None)"
proof (induction s)
  case Nil
  then show ?case by (cases "rx_match_here r []") simp_all
next
  case (Cons c cs)
  show ?case
  proof (cases "rx_match_here r (c # cs)")
    case None
    have "(\<forall>pre s'. c # cs = pre @ s' \<longrightarrow> rx_match_here r s' = None)
          = (\<forall>pre s'. cs = pre @ s' \<longrightarrow> rx_match_here r s' = None)"
    proof
      assume a: "\<forall>pre s'. c # cs = pre @ s' \<longrightarrow> rx_match_here r s' = None"
      show "\<forall>pre s'. cs = pre @ s' \<longrightarrow> rx_match_here r s' = None"
      proof (intro allI impI)
        fix pre s' assume "cs = pre @ s'"
        then have "c # cs = (c # pre) @ s'" by simp
        then show "rx_match_here r s' = None" using a by blast
      qed
    next
      assume a: "\<forall>pre s'. cs = pre @ s' \<longrightarrow> rx_match_here r s' = None"
      show "\<forall>pre s'. c # cs = pre @ s' \<longrightarrow> rx_match_here r s' = None"
      proof (intro allI impI)
        fix pre s' assume h: "c # cs = pre @ s'"
        show "rx_match_here r s' = None"
        proof (cases pre)
          case Nil
          then show ?thesis using h None by simp
        next
          case (Cons y pre')
          then have "cs = pre' @ s'" using h by simp
          then show ?thesis using a by blast
        qed
      qed
    qed
    then show ?thesis using None Cons.IH by simp
  next
    case (Some a)
    have "c # cs = [] @ (c # cs)" by simp
    then have "\<not> (\<forall>pre s'. c # cs = pre @ s' \<longrightarrow> rx_match_here r s' = None)"
      using Some by (metis option.distinct(1))
    then show ?thesis using Some by simp
  qed
qed

lemma len7: "length ''</html>'' = 7" and len15: "length ''<!DOCTYPE html>'' = 15"
  and len6: "length ''<style'' = 6" and len8: "length ''</style>'' = 8"
  and len1: "length ''>'' = 1"
  by simp_all

lemma between_append [simp]: "between (w @ e) e = w"
  by (simp add: between_def)

lemma html_here_unfold:
  "rx_match_here html_rx s =
     (if same_ci (take 15 s) (js ''<!DOCTYPE html>'')
      then rx_match (StarG any_unit) (drop 15 s) html_tail
      else None)"
proof -
  have "(\<lambda>s'. rx_match (lit_i ''</html>'') s' (\<lambda>e. Some ([], e))) = html_tail"
    by (rule ext) (simp only: rx_match_lit_i html_tail_def len7)
  then show ?thesis
    by (simp only: rx_match_here_def html_rx_def rx_match_lit_i rx_match.simps len15)
qed

lemma html_here_Some:
  assumes "rx_match_here html_rx s = Some (ms, e)"
  shows "ms = [] \<and> (\<exists>d m c. s = d @ m @ c @ e \<and> same_ci d (js ''<!DOCTYPE html>'')
                     \<and> same_ci c (js ''</html>''))"
proof -
  have d: "same_ci (take 15 s) (js ''<!DOCTYPE html>'')"
    and st: "rx_match (StarG any_unit) (drop 15 s) html_tail = Some (ms, e)"
    using assms by (simp_all add: html_here_unfold split: if_splits)
  obtain w s2 where w: "drop 15 s = w @ s2" "html_tail s2 = Some (ms, e)"
    using rx_match_StarG_Some [OF st] by blast
  have c: "same_ci (take 7 s2) (js ''</html>'')" and ms: "ms = []" and e: "e = drop 7 s2"
    using w(2) by (simp_all add: html_tail_def split: if_splits)
  have "s = take 15 s @ drop 15 s" by simp
  also have "\<dots> = take 15 s @ w @ take 7 s2 @ e" using w(1) e by simp
  finally have "s = take 15 s @ w @ take 7 s2 @ e" .
  then show ?thesis using d c ms by blast
qed

lemma html_here_None:
  "(rx_match_here html_rx s = None) =
     (\<not> (\<exists>d m c e. s = d @ m @ c @ e \<and> same_ci d (js ''<!DOCTYPE html>'')
                     \<and> same_ci c (js ''</html>'')))"
proof
  assume a: "rx_match_here html_rx s = None"
  show "\<not> (\<exists>d m c e. s = d @ m @ c @ e \<and> same_ci d (js ''<!DOCTYPE html>'')
                     \<and> same_ci c (js ''</html>''))"
  proof
    assume "\<exists>d m c e. s = d @ m @ c @ e \<and> same_ci d (js ''<!DOCTYPE html>'')
                     \<and> same_ci c (js ''</html>'')"
    then obtain d m c e where h: "s = d @ m @ c @ e" "same_ci d (js ''<!DOCTYPE html>'')"
      "same_ci c (js ''</html>'')" by blast
    have ld: "length d = 15" using same_ci_length [OF h(2)] by simp
    have lc: "length c = 7" using same_ci_length [OF h(3)] by simp
    have t: "take 15 s = d" "drop 15 s = m @ c @ e" using h(1) ld by simp_all
    have "rx_match (StarG any_unit) (m @ c @ e) html_tail = None"
      using a h(2) t by (simp add: html_here_unfold)
    then have "html_tail (c @ e) = None"
      using rx_match_StarG_None [of any_unit "m @ c @ e" html_tail]
      by (simp add: any_unit_def)
    then show False using h(3) lc by (simp add: html_tail_def)
  qed
next
  assume a: "\<not> (\<exists>d m c e. s = d @ m @ c @ e \<and> same_ci d (js ''<!DOCTYPE html>'')
                     \<and> same_ci c (js ''</html>''))"
  show "rx_match_here html_rx s = None"
  proof (cases "rx_match_here html_rx s")
    case None
    then show ?thesis .
  next
    case (Some r)
    obtain ms e where "r = (ms, e)" by (cases r)
    then show ?thesis using html_here_Some [of s ms e] Some a by blast
  qed
qed

lemma htmlMatch_Some:
  assumes "htmlMatch content = Some h"
  shows "\<exists>pre d m c post. content = pre @ h @ post \<and> h = d @ m @ c
           \<and> same_ci d (js ''<!DOCTYPE html>'') \<and> same_ci c (js ''</html>'')"
proof -
  obtain s ms e where ex: "rx_exec html_rx content = Some (s, ms, e)" and h: "h = between s e"
    using assms by (auto simp: htmlMatch_def split: option.splits)
  obtain pre where pre: "content = pre @ s" "rx_match_here html_rx s = Some (ms, e)"
    using rx_exec_Some [OF ex] by blast
  obtain d m c where dmc: "s = d @ m @ c @ e" "same_ci d (js ''<!DOCTYPE html>'')"
    "same_ci c (js ''</html>'')"
    using html_here_Some [OF pre(2)] by blast
  have "s = (d @ m @ c) @ e" using dmc(1) by simp
  then have "h = d @ m @ c" using h between_append [of "d @ m @ c" e] by simp
  then show ?thesis using pre(1) dmc by (intro exI[of _ pre] exI[of _ d] exI[of _ m] exI[of _ c] exI[of _ e]) simp
qed

lemma htmlMatch_None:
  "(htmlMatch content = None) =
     (\<not> (\<exists>pre d m c post. content = pre @ d @ m @ c @ post
            \<and> same_ci d (js ''<!DOCTYPE html>'') \<and> same_ci c (js ''</html>'')))"
proof -
  have "(htmlMatch content = None) = (rx_exec html_rx content = None)"
    by (auto simp: htmlMatch_def split: option.splits)
  also have "\<dots> = (\<forall>pre s'. content = pre @ s' \<longrightarrow>
      \<not> (\<exists>d m c e. s' = d @ m @ c @ e \<and> same_ci d (js ''<!DOCTYPE html>'')
                     \<and> same_ci c (js ''</html>'')))"
    by (simp only: rx_exec_None html_here_None)
  also have "\<dots> = (\<not> (\<exists>pre d m c post. content = pre @ d @ m @ c @ post
            \<and> same_ci d (js ''<!DOCTYPE html>'') \<and> same_ci c (js ''</html>'')))"
    by blast
  finally show ?thesis .
qed

lemma case_if_Some:
  "(case (if A then Some x else None) of None \<Rightarrow> None | Some y \<Rightarrow> f y) = (if A then f x else None)"
  by simp

lemma style_here_unfold:
  "rx_match_here style_rx s =
     (if same_ci (take 6 s) (js ''<style'')
      then rx_match (StarG not_gt) (drop 6 s) style_gt
      else None)"
proof -
  have c: "style_close
            = (\<lambda>s'. rx_match Mark s' (\<lambda>s'. rx_match (lit_i ''</style>'') s' (\<lambda>e. Some ([], e))))"
    by (rule ext) (simp only: rx_match_lit_i style_close_def len8 rx_match.simps case_if_Some
        prod.case)
  have b: "style_body
            = (\<lambda>s'. rx_match Mark s' (\<lambda>s'. rx_match (StarL any_unit) s' style_close))"
    by (rule ext) (simp only: style_body_def rx_match.simps)
  have g: "style_gt = (\<lambda>s'. rx_match (lit_i ''>'') s' style_body)"
    by (rule ext) (simp only: rx_match_lit_i style_gt_def len1)
  have "rx_match_here style_rx s =
          rx_match (lit_i ''<style'') s (\<lambda>s'. rx_match (StarG not_gt) s' style_gt)"
    unfolding g b c by (simp only: rx_match_here_def style_rx_def rx_match.simps)
  then show ?thesis
    by (simp only: rx_match_lit_i len6)
qed

lemma ascii_upper_gt: "ascii_upper x = ascii_upper (of_char CHR ''>'') \<Longrightarrow> x = of_char CHR ''>''"
  by (auto simp: ascii_upper_def split: if_splits)

lemma same_ci_gt: "same_ci g (js ''>'') \<Longrightarrow> g = js ''>''"
proof -
  assume a: "same_ci g (js ''>'')"
  then have "length g = 1" using same_ci_length [OF a] by simp
  then obtain x where g: "g = [x]" by (cases g) simp_all
  then have "ascii_upper x = ascii_upper (of_char CHR ''>'')"
    using a by (simp add: same_ci_def js_def)
  then show ?thesis using g ascii_upper_gt by (simp add: js_def)
qed

lemma style_close_Some:
  "style_close s3 = Some (ms, e) \<Longrightarrow>
     \<exists>cl. s3 = cl @ e \<and> same_ci cl (js ''</style>'') \<and> ms = [s3]"
proof -
  assume a: "style_close s3 = Some (ms, e)"
  then have c: "same_ci (take 8 s3) (js ''</style>'')" and ms: "ms = [s3]" and e: "e = drop 8 s3"
    by (simp_all add: style_close_def split: if_splits)
  have "s3 = take 8 s3 @ e" using e by simp
  then show ?thesis using c ms by blast
qed

lemma style_here_Some:
  assumes "rx_match_here style_rx s = Some (ms, e)"
  shows "\<exists>opn tag c cl. s = opn @ tag @ js ''>'' @ c @ cl @ e
           \<and> same_ci opn (js ''<style'') \<and> (\<forall>x \<in> set tag. not_gt x)
           \<and> same_ci cl (js ''</style>'') \<and> ms = [c @ cl @ e, cl @ e]
           \<and> (\<forall>c1 c2. c = c1 @ c2 \<and> c2 \<noteq> [] \<longrightarrow>
                  \<not> same_ci (take 8 (c2 @ cl @ e)) (js ''</style>''))"
proof -
  have o: "same_ci (take 6 s) (js ''<style'')"
    and st: "rx_match (StarG not_gt) (drop 6 s) style_gt = Some (ms, e)"
    using assms by (simp_all add: style_here_unfold split: if_splits)
  obtain tag s1 where t: "drop 6 s = tag @ s1" "\<forall>x \<in> set tag. not_gt x" "style_gt s1 = Some (ms, e)"
    using rx_match_StarG_Some [OF st] by blast
  have g: "same_ci (take 1 s1) (js ''>'')" and bd: "style_body (drop 1 s1) = Some (ms, e)"
    using t(3) by (simp_all add: style_gt_def split: if_splits)
  have g': "take 1 s1 = js ''>''" using same_ci_gt [OF g] .
  obtain ms' where l: "rx_match (StarL any_unit) (drop 1 s1) style_close = Some (ms', e)"
    and ms: "ms = drop 1 s1 # ms'"
    using bd by (auto simp: style_body_def split: option.splits)
  obtain c s3 where c: "drop 1 s1 = c @ s3" "style_close s3 = Some (ms', e)"
    "\<forall>c1 c2. c = c1 @ c2 \<and> c2 \<noteq> [] \<longrightarrow> style_close (c2 @ s3) = None"
    using rx_match_StarL_Some [OF l] by blast
  obtain cl where cl: "s3 = cl @ e" "same_ci cl (js ''</style>'')" "ms' = [s3]"
    using style_close_Some [OF c(2)] by blast
  have "s = take 6 s @ drop 6 s" by simp
  also have "\<dots> = take 6 s @ tag @ take 1 s1 @ drop 1 s1" using t(1) by simp
  also have "\<dots> = take 6 s @ tag @ js ''>'' @ c @ cl @ e" using g' c(1) cl(1) by simp
  finally have s: "s = take 6 s @ tag @ js ''>'' @ c @ cl @ e" .
  have m: "ms = [c @ cl @ e, cl @ e]" using ms c(1) cl(1,3) by simp
  have mn: "\<forall>c1 c2. c = c1 @ c2 \<and> c2 \<noteq> [] \<longrightarrow>
                  \<not> same_ci (take 8 (c2 @ cl @ e)) (js ''</style>'')"
  proof (intro allI impI)
    fix c1 c2 assume "c = c1 @ c2 \<and> c2 \<noteq> []"
    then have "style_close (c2 @ s3) = None" using c(3) by blast
    then show "\<not> same_ci (take 8 (c2 @ cl @ e)) (js ''</style>'')"
      using cl(1) by (simp add: style_close_def split: if_splits)
  qed
  show ?thesis
    by (intro exI[of _ "take 6 s"] exI[of _ tag] exI[of _ c] exI[of _ cl] conjI)
      (rule s o t(2) cl(2) m mn)+
qed

lemma style_here_None:
  "(rx_match_here style_rx s = None) =
     (\<not> (\<exists>opn tag c cl e. s = opn @ tag @ js ''>'' @ c @ cl @ e
            \<and> same_ci opn (js ''<style'') \<and> (\<forall>x \<in> set tag. not_gt x)
            \<and> same_ci cl (js ''</style>'')))"
proof
  assume a: "rx_match_here style_rx s = None"
  show "\<not> (\<exists>opn tag c cl e. s = opn @ tag @ js ''>'' @ c @ cl @ e
            \<and> same_ci opn (js ''<style'') \<and> (\<forall>x \<in> set tag. not_gt x)
            \<and> same_ci cl (js ''</style>''))"
  proof
    assume "\<exists>opn tag c cl e. s = opn @ tag @ js ''>'' @ c @ cl @ e
            \<and> same_ci opn (js ''<style'') \<and> (\<forall>x \<in> set tag. not_gt x)
            \<and> same_ci cl (js ''</style>'')"
    then obtain opn tag c cl e where h: "s = opn @ tag @ js ''>'' @ c @ cl @ e"
      "same_ci opn (js ''<style'')" "\<forall>x \<in> set tag. not_gt x" "same_ci cl (js ''</style>'')"
      by blast
    have lo: "length opn = 6" using same_ci_length [OF h(2)] by simp
    have lc: "length cl = 8" using same_ci_length [OF h(4)] by simp
    have t: "take 6 s = opn" "drop 6 s = tag @ js ''>'' @ c @ cl @ e" using h(1) lo by simp_all
    have g0: "rx_match (StarG not_gt) (tag @ js ''>'' @ c @ cl @ e) style_gt = None"
      using a h(2) t by (simp add: style_here_unfold)
    have "style_gt (js ''>'' @ c @ cl @ e) = None"
      using rx_match_StarG_None [THEN iffD1, OF g0, rule_format, of tag "js ''>'' @ c @ cl @ e"] h(3)
      by simp
    then have "style_body (c @ cl @ e) = None"
      by (simp add: style_gt_def js_def same_ci_def)
    then have l0: "rx_match (StarL any_unit) (c @ cl @ e) style_close = None"
      by (simp add: style_body_def split: option.splits prod.splits)
    have "style_close (cl @ e) = None"
      using rx_match_StarL_None [THEN iffD1, OF l0, rule_format, of c "cl @ e"]
      by (simp add: any_unit_def)
    then show False using h(4) lc by (simp add: style_close_def)
  qed
next
  assume a: "\<not> (\<exists>opn tag c cl e. s = opn @ tag @ js ''>'' @ c @ cl @ e
            \<and> same_ci opn (js ''<style'') \<and> (\<forall>x \<in> set tag. not_gt x)
            \<and> same_ci cl (js ''</style>''))"
  show "rx_match_here style_rx s = None"
  proof (cases "rx_match_here style_rx s")
    case None
    then show ?thesis .
  next
    case (Some r)
    obtain ms e where "r = (ms, e)" by (cases r)
    then have "rx_match_here style_rx s = Some (ms, e)" using Some by simp
    from style_here_Some [OF this] obtain opn tag c cl where
      "s = opn @ tag @ js ''>'' @ c @ cl @ e \<and> same_ci opn (js ''<style'')
        \<and> (\<forall>x \<in> set tag. not_gt x) \<and> same_ci cl (js ''</style>'')" by blast
    then have "\<exists>opn tag c cl e. s = opn @ tag @ js ''>'' @ c @ cl @ e
        \<and> same_ci opn (js ''<style'') \<and> (\<forall>x \<in> set tag. not_gt x)
        \<and> same_ci cl (js ''</style>'')"
      by (intro exI[of _ opn] exI[of _ tag] exI[of _ c] exI[of _ cl] exI[of _ e])
    then show ?thesis using a by simp
  qed
qed

lemma cssMatch_Some:
  assumes "cssMatch content = Some c"
  shows "\<exists>pre opn tag cl post. content = pre @ opn @ tag @ js ''>'' @ c @ cl @ post
           \<and> same_ci opn (js ''<style'') \<and> (\<forall>x \<in> set tag. not_gt x)
           \<and> same_ci cl (js ''</style>'')
           \<and> (\<forall>c1 c2. c = c1 @ c2 \<and> c2 \<noteq> [] \<longrightarrow>
                  \<not> same_ci (take 8 (c2 @ cl @ post)) (js ''</style>''))
           \<and> (\<forall>p1 p2. pre = p1 @ p2 \<and> p2 \<noteq> [] \<longrightarrow>
                  rx_match_here style_rx (p2 @ opn @ tag @ js ''>'' @ c @ cl @ post) = None)"
proof -
  obtain s ms e where ex: "rx_exec style_rx content = Some (s, ms, e)"
    using assms by (auto simp: cssMatch_def split: option.splits)
  obtain pre where pre: "content = pre @ s" "rx_match_here style_rx s = Some (ms, e)"
    "\<forall>p1 p2. pre = p1 @ p2 \<and> p2 \<noteq> [] \<longrightarrow> rx_match_here style_rx (p2 @ s) = None"
    using rx_exec_Some [OF ex] by blast
  obtain opn tag c' cl where b: "s = opn @ tag @ js ''>'' @ c' @ cl @ e"
    "same_ci opn (js ''<style'')" "\<forall>x \<in> set tag. not_gt x"
    "same_ci cl (js ''</style>'')" "ms = [c' @ cl @ e, cl @ e]"
    "\<forall>c1 c2. c' = c1 @ c2 \<and> c2 \<noteq> [] \<longrightarrow> \<not> same_ci (take 8 (c2 @ cl @ e)) (js ''</style>'')"
    using style_here_Some [OF pre(2)] by blast
  have "cssMatch content = Some (between (c' @ cl @ e) (cl @ e))"
    using ex b(5) by (simp add: cssMatch_def)
  then have cc: "c' = c" using assms between_append [of c' "cl @ e"] by simp
  have 1: "content = pre @ opn @ tag @ js ''>'' @ c @ cl @ e"
    using pre(1) b(1) cc by simp
  have 5: "\<forall>c1 c2. c = c1 @ c2 \<and> c2 \<noteq> [] \<longrightarrow>
             \<not> same_ci (take 8 (c2 @ cl @ e)) (js ''</style>'')"
    using b(6) cc by simp
  have 6: "\<forall>p1 p2. pre = p1 @ p2 \<and> p2 \<noteq> [] \<longrightarrow>
             rx_match_here style_rx (p2 @ opn @ tag @ js ''>'' @ c @ cl @ e) = None"
    using pre(3) b(1) cc by simp
  show ?thesis
    by (intro exI[of _ pre] exI[of _ opn] exI[of _ tag] exI[of _ cl] exI[of _ e] conjI)
      (rule 1 b(2) b(3) b(4) 5 6)+
qed

lemma cssMatch_None:
  "(cssMatch content = None) =
     (\<not> (\<exists>pre opn tag c cl post. content = pre @ opn @ tag @ js ''>'' @ c @ cl @ post
            \<and> same_ci opn (js ''<style'') \<and> (\<forall>x \<in> set tag. not_gt x)
            \<and> same_ci cl (js ''</style>'')))"
proof -
  have "(cssMatch content = None) = (rx_exec style_rx content = None)"
  proof (cases "rx_exec style_rx content")
    case None
    then show ?thesis by (simp add: cssMatch_def)
  next
    case (Some r)
    obtain s ms e where r: "r = (s, ms, e)" by (cases r)
    have ex: "rx_exec style_rx content = Some (s, ms, e)" using Some r by simp
    obtain pre where "content = pre @ s" and here: "rx_match_here style_rx s = Some (ms, e)"
      using rx_exec_Some [OF ex] by blast
    obtain c cl where "ms = [c @ cl @ e, cl @ e]"
      using style_here_Some [OF here] by blast
    then show ?thesis using ex by (simp add: cssMatch_def)
  qed
  also have "\<dots> = (\<forall>pre s'. content = pre @ s' \<longrightarrow>
      \<not> (\<exists>opn tag c cl e. s' = opn @ tag @ js ''>'' @ c @ cl @ e
            \<and> same_ci opn (js ''<style'') \<and> (\<forall>x \<in> set tag. not_gt x)
            \<and> same_ci cl (js ''</style>'')))"
    by (simp only: rx_exec_None style_here_None)
  also have "\<dots> = (\<not> (\<exists>pre opn tag c cl post. content = pre @ opn @ tag @ js ''>'' @ c @ cl @ post
            \<and> same_ci opn (js ''<style'') \<and> (\<forall>x \<in> set tag. not_gt x)
            \<and> same_ci cl (js ''</style>'')))"
  proof
    assume a: "\<forall>pre s'. content = pre @ s' \<longrightarrow>
      \<not> (\<exists>opn tag c cl e. s' = opn @ tag @ js ''>'' @ c @ cl @ e
            \<and> same_ci opn (js ''<style'') \<and> (\<forall>x \<in> set tag. not_gt x)
            \<and> same_ci cl (js ''</style>''))"
    show "\<not> (\<exists>pre opn tag c cl post. content = pre @ opn @ tag @ js ''>'' @ c @ cl @ post
            \<and> same_ci opn (js ''<style'') \<and> (\<forall>x \<in> set tag. not_gt x)
            \<and> same_ci cl (js ''</style>''))"
    proof
      assume "\<exists>pre opn tag c cl post. content = pre @ opn @ tag @ js ''>'' @ c @ cl @ post
            \<and> same_ci opn (js ''<style'') \<and> (\<forall>x \<in> set tag. not_gt x)
            \<and> same_ci cl (js ''</style>'')"
      then obtain pre opn tag c cl post where
        h: "content = pre @ opn @ tag @ js ''>'' @ c @ cl @ post
            \<and> same_ci opn (js ''<style'') \<and> (\<forall>x \<in> set tag. not_gt x)
            \<and> same_ci cl (js ''</style>'')"
        by blast
      have "\<exists>opn' tag' c' cl' e. opn @ tag @ js ''>'' @ c @ cl @ post
              = opn' @ tag' @ js ''>'' @ c' @ cl' @ e
            \<and> same_ci opn' (js ''<style'') \<and> (\<forall>x \<in> set tag'. not_gt x)
            \<and> same_ci cl' (js ''</style>'')"
        using h by (intro exI [of _ opn] exI [of _ tag] exI [of _ c] exI [of _ cl] exI [of _ post]) simp
      moreover have "content = pre @ (opn @ tag @ js ''>'' @ c @ cl @ post)" using h by simp
      ultimately show False using a [rule_format, of pre "opn @ tag @ js ''>'' @ c @ cl @ post"]
        by simp
    qed
  next
    assume a: "\<not> (\<exists>pre opn tag c cl post. content = pre @ opn @ tag @ js ''>'' @ c @ cl @ post
            \<and> same_ci opn (js ''<style'') \<and> (\<forall>x \<in> set tag. not_gt x)
            \<and> same_ci cl (js ''</style>''))"
    show "\<forall>pre s'. content = pre @ s' \<longrightarrow>
      \<not> (\<exists>opn tag c cl e. s' = opn @ tag @ js ''>'' @ c @ cl @ e
            \<and> same_ci opn (js ''<style'') \<and> (\<forall>x \<in> set tag. not_gt x)
            \<and> same_ci cl (js ''</style>''))"
    proof (intro allI impI notI)
      fix pre s'
      assume c: "content = pre @ s'"
        and "\<exists>opn tag c cl e. s' = opn @ tag @ js ''>'' @ c @ cl @ e
            \<and> same_ci opn (js ''<style'') \<and> (\<forall>x \<in> set tag. not_gt x)
            \<and> same_ci cl (js ''</style>'')"
      then obtain opn tag c cl e where
        h: "s' = opn @ tag @ js ''>'' @ c @ cl @ e
            \<and> same_ci opn (js ''<style'') \<and> (\<forall>x \<in> set tag. not_gt x)
            \<and> same_ci cl (js ''</style>'')"
        by blast
      have "\<exists>pre opn tag c cl post. content = pre @ opn @ tag @ js ''>'' @ c @ cl @ post
            \<and> same_ci opn (js ''<style'') \<and> (\<forall>x \<in> set tag. not_gt x)
            \<and> same_ci cl (js ''</style>'')"
        using c h
        by (intro exI [of _ pre] exI [of _ opn] exI [of _ tag] exI [of _ c] exI [of _ cl]
            exI [of _ e]) simp
      then show False using a by simp
    qed
  qed
  finally show ?thesis .
qed

lemma length_skip_newline: "length (skip_newline r) \<le> length r"
  by (cases r) (simp_all add: skip_newline_def)

lemma skip_newline_append: "r \<noteq> [] \<Longrightarrow> skip_newline (r @ x) = skip_newline r @ x"
  by (cases r) (simp_all add: skip_newline_def)

lemma fence_here:
  "rx_match_here (fence p) s =
     (if prefix (js p) s then Some ([], skip_newline (drop (length p) s)) else None)"
proof -
  have "rx_match (Opt newline) r (\<lambda>e. Some ([], e)) = Some ([], skip_newline r)" for r
    by (cases r) (simp_all add: skip_newline_def)
  then show ?thesis
    by (simp add: rx_match_here_def fence_def rx_match_lit)
qed

lemma remove_fence_unfold:
  assumes "p \<noteq> []"
  shows "rx_remove_all (fence p) s =
     (if prefix (js p) s then rx_remove_all (fence p) (skip_newline (drop (length p) s))
      else (case s of [] \<Rightarrow> [] | c # cs \<Rightarrow> c # rx_remove_all (fence p) cs))"
proof (cases "prefix (js p) s")
  case True
  then have "length p \<le> length s" using prefix_length_le by fastforce
  then have "length (drop (length p) s) < length s" using assms by (cases s) simp_all
  then have "length (skip_newline (drop (length p) s)) < length s"
    using length_skip_newline [of "drop (length p) s"] by simp
  then show ?thesis using True
    by (subst rx_remove_all.simps) (simp add: fence_here)
next
  case False
  then show ?thesis
    by (subst rx_remove_all.simps) (simp add: fence_here)
qed

lemma remove_fence_Nil [simp]: "rx_remove_all (fence p) [] = []"
  by (subst rx_remove_all.simps) (simp add: fence_here split: option.splits)

lemma prefix_append_newline:
  assumes "10 \<notin> set (js p)" "prefix (js p) (s @ 10 # x)"
  shows "prefix (js p) s"
proof (rule ccontr)
  assume n: "\<not> prefix (js p) s"
  from assms(2) have "prefix (js p) s \<or> (\<exists>us. js p = s @ us \<and> prefix us (10 # x))"
    by (simp add: prefix_append)
  then obtain us where us: "js p = s @ us" "prefix us (10 # x)" using n by blast
  have "us \<noteq> []" using us(1) n by auto
  then have "hd us = 10" using us(2) by (cases us) simp_all
  then have "10 \<in> set us" using \<open>us \<noteq> []\<close> by (metis hd_in_set)
  then show False using assms(1) us(1) by simp
qed

lemma remove_fence_before_newline:
  assumes p: "p \<noteq> []" and nl: "10 \<notin> set (js p)"
  shows "rx_remove_all (fence p) (s @ 10 # x) = rx_remove_all (fence p) s @ rx_remove_all (fence p) x
       \<or> rx_remove_all (fence p) (s @ 10 # x)
           = rx_remove_all (fence p) s @ rx_remove_all (fence p) (10 # x)"
proof (induction "length s" arbitrary: s rule: less_induct)
  case less
  show ?case
  proof (cases "prefix (js p) s")
    case True
    then have pre: "prefix (js p) (s @ 10 # x)" by (simp add: prefix_append)
    have lp: "length p \<le> length s" using True prefix_length_le by fastforce
    let ?r = "drop (length p) s"
    have l: "rx_remove_all (fence p) (s @ 10 # x)
               = rx_remove_all (fence p) (skip_newline (?r @ 10 # x))"
      using pre lp by (subst remove_fence_unfold [OF p]) simp
    have r: "rx_remove_all (fence p) s = rx_remove_all (fence p) (skip_newline ?r)"
      using True by (subst remove_fence_unfold [OF p]) simp
    show ?thesis
    proof (cases "?r = []")
      case True
      then have "skip_newline (?r @ 10 # x) = x" "skip_newline ?r = []"
        by (simp_all add: skip_newline_def newline_def)
      then show ?thesis using l r by simp
    next
      case False
      then have sk: "skip_newline (?r @ 10 # x) = skip_newline ?r @ 10 # x"
        by (rule skip_newline_append)
      have "length ?r < length s" using lp p by (cases s) simp_all
      then have "length (skip_newline ?r) < length s"
        using length_skip_newline [of ?r] by simp
      from less [OF this] show ?thesis using l r sk by simp
    qed
  next
    case False
    then have npre: "\<not> prefix (js p) (s @ 10 # x)"
      using prefix_append_newline [OF nl] by blast
    show ?thesis
    proof (cases s)
      case Nil
      then show ?thesis by simp
    next
      case (Cons c cs)
      have l: "rx_remove_all (fence p) (s @ 10 # x) = c # rx_remove_all (fence p) (cs @ 10 # x)"
        using npre Cons by (subst remove_fence_unfold [OF p]) simp
      have r: "rx_remove_all (fence p) s = c # rx_remove_all (fence p) cs"
        using False Cons by (subst remove_fence_unfold [OF p]) simp
      have "length cs < length s" using Cons by simp
      from less [OF this] show ?thesis using l r by simp
    qed
  qed
qed

lemma js_ticks: "js ''```'' = [96, 96, 96]"
  by (simp add: js_def)

lemma prefix_ticks_cases:
  assumes "\<not> prefix [96, 96, 96] t" "prefix [96, 96, 96 :: 16 word] (t @ [96, 96, 96])" "t \<noteq> []"
  shows "t = [96] \<or> t = [96, 96]"
proof -
  have "length t < 3"
  proof (rule ccontr)
    assume "\<not> length t < 3"
    then have "take 3 (t @ [96, 96, 96]) = take 3 t" by simp
    moreover have "take 3 (t @ [96, 96, 96]) = [96, 96, 96]"
    proof -
      obtain zs where eq: "t @ [96, 96, 96] = [96, 96, 96] @ zs"
        using assms(2) by (auto simp: prefix_def)
      have "take 3 (t @ [96, 96, 96]) = take 3 ([96, 96, 96] @ zs)" by (simp only: eq)
      then show ?thesis by simp
    qed
    ultimately have "take 3 t = [96, 96, 96]" by simp
    then have "prefix [96, 96, 96] t" by (metis take_is_prefix)
    then show False using assms(1) by simp
  qed
  then consider (1) "length t = 1" | (2) "length t = 2" using assms(3)
    by (cases t) (auto simp: less_Suc_eq numeral_3_eq_3)
  then show ?thesis
  proof cases
    case 1
    then obtain a where "t = [a]" by (cases t) simp_all
    then show ?thesis using assms(2) by simp
  next
    case 2
    then obtain a b where "t = [a, b]" by (cases t; cases "tl t") simp_all
    then show ?thesis using assms(2) by simp
  qed
qed

lemma remove_fence_ticks_short:
  "rx_remove_all (fence ''```'') [96] = [96]"
  "rx_remove_all (fence ''```'') [96, 96] = [96, 96]"
  "rx_remove_all (fence ''```'') [96, 96, 96] = []"
  by (simp_all add: remove_fence_unfold js_ticks skip_newline_def)

lemma remove_fence_ticks_append:
  "rx_remove_all (fence ''```'') (t @ js ''```'') = rx_remove_all (fence ''```'') t"
proof (induction "length t" arbitrary: t rule: less_induct)
  case less
  have p: "''```'' \<noteq> []" by simp
  have lp: "length ''```'' = 3" by simp
  show ?case
  proof (cases "prefix (js ''```'') t")
    case True
    then have pre: "prefix (js ''```'') (t @ js ''```'')" by (simp add: prefix_append)
    have lt: "3 \<le> length t" using True prefix_length_le by fastforce
    let ?r = "drop 3 t"
    have l: "rx_remove_all (fence ''```'') (t @ js ''```'')
               = rx_remove_all (fence ''```'') (skip_newline (?r @ js ''```''))"
      using pre lt by (subst remove_fence_unfold [OF p]) (simp add: lp del: list.size)
    have r: "rx_remove_all (fence ''```'') t = rx_remove_all (fence ''```'') (skip_newline ?r)"
      using True by (subst remove_fence_unfold [OF p]) (simp add: lp del: list.size)
    show ?thesis
    proof (cases "?r = []")
      case True
      then have "skip_newline (?r @ js ''```'') = [96, 96, 96]" "skip_newline ?r = []"
        by (simp_all add: skip_newline_def newline_def js_ticks)
      then show ?thesis using l r by (simp add: remove_fence_ticks_short)
    next
      case False
      then have sk: "skip_newline (?r @ js ''```'') = skip_newline ?r @ js ''```''"
        by (rule skip_newline_append)
      have "length ?r < length t" using lt by simp
      then have "length (skip_newline ?r) < length t"
        using length_skip_newline [of ?r] by simp
      from less [OF this] show ?thesis using l r sk by simp
    qed
  next
    case False
    show ?thesis
    proof (cases t)
      case Nil
      then show ?thesis by (simp add: js_ticks remove_fence_ticks_short)
    next
      case (Cons c cs)
      have r: "rx_remove_all (fence ''```'') t = c # rx_remove_all (fence ''```'') cs"
        using False Cons by (subst remove_fence_unfold [OF p]) simp
      show ?thesis
      proof (cases "prefix (js ''```'') (t @ js ''```'')")
        case True
        then have "t = [96] \<or> t = [96, 96]"
          using prefix_ticks_cases [of t] False Cons by (simp add: js_ticks)
        then show ?thesis
        proof
          assume t: "t = [96]"
          have "rx_remove_all (fence ''```'') ([96] @ js ''```'') = [96]"
            by (subst remove_fence_unfold [OF p])
              (simp add: js_ticks skip_newline_def newline_def remove_fence_ticks_short)
          then show ?thesis using t by (simp add: remove_fence_ticks_short)
        next
          assume t: "t = [96, 96]"
          have "rx_remove_all (fence ''```'') ([96, 96] @ js ''```'') = [96, 96]"
            by (subst remove_fence_unfold [OF p])
              (simp add: js_ticks skip_newline_def newline_def remove_fence_ticks_short)
          then show ?thesis using t by (simp add: remove_fence_ticks_short)
        qed
      next
        case npre: False
        have l: "rx_remove_all (fence ''```'') (t @ js ''```'')
                   = c # rx_remove_all (fence ''```'') (cs @ js ''```'')"
          using npre Cons by (subst remove_fence_unfold [OF p]) simp
        have "length cs < length t" using Cons by simp
        from less [OF this] show ?thesis using l r by simp
      qed
    qed
  qed
qed

lemma js_space_newline: "js_space 10"
  by (simp add: js_space_def)

lemma trim_append_newline: "trim (u @ [10]) = trim u"
proof (cases "\<forall>x \<in> set u. js_space x")
  case True
  then have "dropWhile js_space (u @ [10]) = dropWhile js_space [10]"
    by (intro dropWhile_append2) simp
  then have a: "dropWhile js_space (u @ [10]) = []"
    using js_space_newline by simp
  have b: "dropWhile js_space u = []"
    using True by (simp only: dropWhile_eq_Nil_conv)
  show ?thesis unfolding trim_def a b by simp
next
  case False
  then obtain x where "x \<in> set u" "\<not> js_space x" by blast
  then have "dropWhile js_space (u @ [10]) = dropWhile js_space u @ [10]"
    by (rule dropWhile_append1)
  then show ?thesis using js_space_newline by (simp add: trim_def)
qed

lemma js_fence_json: "js ''```json'' = [96, 96, 96, 106, 115, 111, 110]"
  by (simp add: js_def)

lemma remove_json_fence_ticks:
  "rx_remove_all (fence ''```json'') (js ''```'') = js ''```''"
  "rx_remove_all (fence ''```json'') (10 # js ''```'') = 10 # js ''```''"
  by (simp_all add: remove_fence_unfold js_ticks js_fence_json)

lemma remove_fence_newline_ticks:
  "rx_remove_all (fence ''```'') (10 # js ''```'') = [10]"
  by (simp add: remove_fence_unfold js_ticks skip_newline_def)

lemma remove_fence_ticks_only:
  "rx_remove_all (fence ''```'') (js ''```'') = []"
  by (simp add: js_ticks remove_fence_ticks_short)

lemma cleaned_closing_fence:
  "cleanedContent (s @ 10 # js ''```'') = cleanedContent s"
proof -
  let ?R1 = "rx_remove_all (fence ''```json'')"
  let ?R2 = "rx_remove_all (fence ''```'')"
  have p1: "''```json'' \<noteq> []" and p2: "''```'' \<noteq> []" by simp_all
  have n1: "10 \<notin> set (js ''```json'')" by (simp add: js_fence_json)
  have n2: "10 \<notin> set (js ''```'')" by (simp add: js_ticks)
  have step2: "trim (?R2 (t @ 10 # js ''```'')) = trim (?R2 t)" for t
    using remove_fence_before_newline [OF p2 n2, of t "js ''```''"]
    by (auto simp: remove_fence_newline_ticks remove_fence_ticks_only trim_append_newline)
  have "?R1 (s @ 10 # js ''```'') = ?R1 s @ js ''```''
        \<or> ?R1 (s @ 10 # js ''```'') = ?R1 s @ 10 # js ''```''"
    using remove_fence_before_newline [OF p1 n1, of s "js ''```''"]
    by (simp add: remove_json_fence_ticks)
  then have "trim (?R2 (?R1 (s @ 10 # js ''```''))) = trim (?R2 (?R1 s))"
  proof
    assume "?R1 (s @ 10 # js ''```'') = ?R1 s @ js ''```''"
    then show ?thesis by (simp add: remove_fence_ticks_append)
  next
    assume "?R1 (s @ 10 # js ''```'') = ?R1 s @ 10 # js ''```''"
    then show ?thesis by (simp add: step2)
  qed
  then show ?thesis by (simp add: cleanedContent_def fence_json_rx_def fence_rx_def)
qed

lemma cleaned_json_fence:
  "cleanedContent (js ''```json\<newline>'' @ s @ js ''\<newline>```'') = cleanedContent s"
proof -
  have a: "js ''```json\<newline>'' @ s @ js ''\<newline>```''
             = js ''```json'' @ 10 # (s @ 10 # js ''```'')"
    by (simp add: js_def)
  have "rx_remove_all (fence ''```json'') (js ''```json'' @ 10 # t)
          = rx_remove_all (fence ''```json'') t" for t
    by (subst remove_fence_unfold) (simp_all add: skip_newline_def newline_def)
  then have "cleanedContent (js ''```json'' @ 10 # t) = cleanedContent t" for t
    by (simp add: cleanedContent_def fence_json_rx_def)
  then show ?thesis
    unfolding a by (simp add: cleaned_closing_fence)
qed

lemma cleaned_plain_fence:
  "cleanedContent (js ''```\<newline>'' @ s @ js ''\<newline>```'') = cleanedContent s"
proof -
  have a: "js ''```\<newline>'' @ s @ js ''\<newline>```''
             = 96 # 96 # 96 # 10 # (s @ 10 # js ''```'')"
    by (simp add: js_def)
  have 1: "rx_remove_all (fence ''```json'') (96 # 96 # 96 # 10 # t)
          = 96 # 96 # 96 # 10 # rx_remove_all (fence ''```json'') t" for t
    by (simp add: remove_fence_unfold [of "''```json''"] js_fence_json)
  have 2: "rx_remove_all (fence ''```'') (96 # 96 # 96 # 10 # t)
          = rx_remove_all (fence ''```'') t" for t
    by (subst remove_fence_unfold) (simp_all add: js_ticks skip_newline_def newline_def)
  have "cleanedContent (96 # 96 # 96 # 10 # t) = cleanedContent t" for t
    by (simp add: cleanedContent_def fence_json_rx_def fence_rx_def 1 2)
  then show ?thesis
    unfolding a by (simp add: cleaned_closing_fence)
qed

lemma generateWebsite_strict:
  assumes "JSON_parse (cleanedContent content) = Some v"
    and "get_property v (js ''html'') = Some h"
    and "get_property v (js ''css'') = Some c"
  shows "generateWebsite JSON_parse content
           = Inr \<lparr>html = js_or h (JString []), css = js_or c (JString [])\<rparr>"
  using assms by (simp add: generateWebsite_def)

lemma generateWebsite_fallback:
  assumes "JSON_parse (cleanedContent content) \<in> {None, Some JNull}"
  shows "generateWebsite JSON_parse content =
           (case htmlMatch content of
              Some h \<Rightarrow>
                Inr \<lparr>html = JString h,
                     css = JString (case cssMatch content of Some c \<Rightarrow> c | None \<Rightarrow> [])\<rparr>
            | None \<Rightarrow> Inl (Error (js ''Failed to generate website. Please try again.'')))"
  using assms by (auto simp: generateWebsite_def split: option.splits)

lemma get_property_defined:
  "v \<noteq> JNull \<Longrightarrow> \<exists>x. get_property v key = Some x"
  by (cases v) simp_all

lemma get_property_other:
  "v \<noteq> JNull \<Longrightarrow> \<forall>kvs. v \<noteq> JObject kvs \<Longrightarrow> get_property v key = Some None"
  by (cases v) simp_all

lemma generateWebsite_total_strict:
  assumes "JSON_parse (cleanedContent content) = Some v" and "v \<noteq> JNull"
  shows "\<exists>h c. get_property v (js ''html'') = Some h \<and> get_property v (js ''css'') = Some c
           \<and> generateWebsite JSON_parse content
               = Inr \<lparr>html = js_or h (JString []), css = js_or c (JString [])\<rparr>"
proof -
  obtain h where h: "get_property v (js ''html'') = Some h"
    using get_property_defined [OF assms(2)] by blast
  obtain c where c: "get_property v (js ''css'') = Some c"
    using get_property_defined [OF assms(2)] by blast
  show ?thesis
    using h c generateWebsite_strict [of JSON_parse content, OF assms(1) h c]
    by (intro exI [of _ h] exI [of _ c]) simp
qed

lemma generateWebsite_error:
  "(\<exists>e. generateWebsite JSON_parse content = Inl e)
     = (JSON_parse (cleanedContent content) \<in> {None, Some JNull} \<and> htmlMatch content = None)"
proof (cases "JSON_parse (cleanedContent content) \<in> {None, Some JNull}")
  case True
  show ?thesis
    using True by (cases "htmlMatch content") (simp_all add: generateWebsite_fallback [of JSON_parse content, OF True])
next
  case False
  then obtain v where v: "JSON_parse (cleanedContent content) = Some v" "v \<noteq> JNull"
    by (cases "JSON_parse (cleanedContent content)") auto
  obtain h c where "generateWebsite JSON_parse content
               = Inr \<lparr>html = js_or h (JString []), css = js_or c (JString [])\<rparr>"
    using generateWebsite_total_strict [of JSON_parse content, OF v] by blast
  then show ?thesis using False by simp
qed

lemma generateWebsite_error_message:
  assumes "generateWebsite JSON_parse content = Inl e"
  shows "e = Error (js ''Failed to generate website. Please try again.'')"
proof -
  have "\<exists>e. generateWebsite JSON_parse content = Inl e" using assms by (intro exI [of _ e])
  then have t: "JSON_parse (cleanedContent content) \<in> {None, Some JNull}"
    and n: "htmlMatch content = None"
    by (simp_all only: generateWebsite_error)
  show ?thesis using assms by (simp add: generateWebsite_fallback [of JSON_parse content, OF t] n)
qed

lemma generateWebsite_truthy:
  assumes "JSON_parse (cleanedContent content) = Some (JObject kvs)"
    and "map_of kvs (js ''html'') = Some h" and "map_of kvs (js ''css'') = Some c"
    and "truthy h" and "truthy c"
  shows "generateWebsite JSON_parse content = Inr \<lparr>html = h, css = c\<rparr>"
proof -
  have "get_property (JObject kvs) (js ''html'') = Some (Some h)"
    "get_property (JObject kvs) (js ''css'') = Some (Some c)"
    using assms(2,3) by simp_all
  from generateWebsite_strict [of JSON_parse content, OF assms(1) this] show ?thesis using assms(4,5) by simp
qed

lemma generateWebsite_no_fields:
  assumes "JSON_parse (cleanedContent content) = Some v" and "v \<noteq> JNull"
    and "\<forall>kvs. v = JObject kvs \<longrightarrow> map_of kvs (js ''html'') = None \<and> map_of kvs (js ''css'') = None"
  shows "generateWebsite JSON_parse content = Inr \<lparr>html = JString [], css = JString []\<rparr>"
proof -
  have "get_property v (js ''html'') = Some None" "get_property v (js ''css'') = Some None"
    using assms(2,3) by (cases v; simp)+
  from generateWebsite_strict [of JSON_parse content, OF assms(1) this] show ?thesis by simp
qed

lemma regenerateSection_strict:
  assumes "JSON_parse (cleanedContent content) = Some v"
    and "get_property v (js ''html'') = Some h"
    and "get_property v (js ''css'') = Some c"
  shows "regenerateSection JSON_parse currentHtml currentCss content
           = Inr \<lparr>html = js_or h (JString currentHtml), css = js_or c (JString currentCss)\<rparr>"
  using assms by (simp add: regenerateSection_def)

lemma regenerateSection_fallback:
  assumes "JSON_parse (cleanedContent content) \<in> {None, Some JNull}"
  shows "regenerateSection JSON_parse currentHtml currentCss content =
           (case htmlMatch content of
              Some h \<Rightarrow> Inr \<lparr>html = JString h, css = JString []\<rparr>
            | None \<Rightarrow> Inl (Error (js ''Failed to update website section. Please try again.'')))"
  using assms by (auto simp: regenerateSection_def split: option.splits)

section \<open>A code fence around the response\<close>

lemma shift_simps [simp]:
  "shift x None = None"
  "shift x (Some (ms, e)) = Some (map (\<lambda>m. m @ x) ms, e @ x)"
  by (simp_all add: shift_def)

lemma same_ci_last:
  assumes "same_ci a b" "a \<noteq> []"
  shows "ascii_upper (last a) = ascii_upper (last b)"
proof -
  have "b \<noteq> []" using assms same_ci_length by fastforce
  have "last (map ascii_upper a) = last (map ascii_upper b)"
    using assms(1) by (simp add: same_ci_def)
  then show ?thesis using assms(2) \<open>b \<noteq> []\<close> by (simp add: last_map)
qed

lemma same_ci_take_append:
  assumes p: "p \<noteq> []" and f: "\<forall>x \<in> set F. ascii_upper x \<noteq> ascii_upper (last p)"
  shows "same_ci (take (length p) (s @ F)) p = same_ci (take (length p) s) p"
proof (cases "length p \<le> length s")
  case True
  then show ?thesis by simp
next
  case False
  then have short: "length (take (length p) s) < length p" by simp
  have r: "\<not> same_ci (take (length p) s) p"
    using same_ci_length [of "take (length p) s" p] short by auto
  have l: "\<not> same_ci (take (length p) (s @ F)) p"
  proof
    assume a: "same_ci (take (length p) (s @ F)) p"
    let ?t = "take (length p - length s) F"
    have eq: "take (length p) (s @ F) = s @ ?t" using False by simp
    have "length (s @ ?t) = length p" using same_ci_length [OF a] eq by simp
    then have ne: "?t \<noteq> []" using False by auto
    then have "last (s @ ?t) = last ?t" by simp
    moreover have "last ?t \<in> set F" using ne by (meson in_set_takeD last_in_set)
    moreover have "ascii_upper (last (s @ ?t)) = ascii_upper (last p)"
    proof -
      have sc: "same_ci (s @ ?t) p" using a eq by simp
      have "s @ ?t \<noteq> []" using ne by simp
      from same_ci_last [OF sc this] show ?thesis .
    qed
    ultimately show False using f by auto
  qed
  show ?thesis using l r by simp
qed

lemma last_patterns:
  "last (js ''<!DOCTYPE html>'') = 62" "last (js ''</html>'') = 62"
  "last (js ''</style>'') = 62" "last (js ''>'') = 62" "last (js ''<style'') = 101"
  by (simp_all add: js_def)

lemma patterns_nonempty:
  "js ''<!DOCTYPE html>'' \<noteq> []" "js ''</html>'' \<noteq> []"
  "js ''</style>'' \<noteq> []" "js ''>'' \<noteq> []" "js ''<style'' \<noteq> []"
  by (simp_all add: js_def)

lemma ascii_upper_values: "ascii_upper 62 = 62" "ascii_upper 101 = 69" "ascii_upper 60 = 60"
  by (simp_all add: ascii_upper_def)

lemma html_tail_shift:
  assumes "\<forall>x \<in> set F. ascii_upper x \<noteq> 62"
  shows "html_tail (s @ F) = shift F (html_tail s)"
proof -
  have "same_ci (take 7 (s @ F)) (js ''</html>'') = same_ci (take 7 s) (js ''</html>'')"
    using same_ci_take_append [of "js ''</html>''" F s, OF patterns_nonempty(2)] assms
    by (simp add: last_patterns ascii_upper_values len7 del: list.size)
  moreover have "same_ci (take 7 s) (js ''</html>'') \<Longrightarrow> drop 7 (s @ F) = drop 7 s @ F"
  proof -
    assume "same_ci (take 7 s) (js ''</html>'')"
    then have "length (take 7 s) = 7" using same_ci_length by fastforce
    then show ?thesis by simp
  qed
  ultimately show ?thesis by (simp add: html_tail_def)
qed

lemma StarG_shift:
  assumes k: "\<And>x. k (x @ F) = shift F (k x)"
    and base: "rx_match (StarG P) F k = None" and kn: "k [] = None"
  shows "rx_match (StarG P) (s @ F) k = shift F (rx_match (StarG P) s k)"
proof (induction s)
  case Nil
  then show ?case using base kn by simp
next
  case (Cons c s)
  have kc: "k (c # s @ F) = shift F (k (c # s))" using k [of "c # s"] by simp
  show ?case
  proof (cases "P c")
    case True
    then show ?thesis
      using Cons kc by (cases "rx_match (StarG P) s k") auto
  next
    case False
    then show ?thesis using kc by simp
  qed
qed

lemma StarL_shift:
  assumes k: "\<And>x. k (x @ F) = shift F (k x)"
    and base: "rx_match (StarL P) F k = None" and kn: "k [] = None"
  shows "rx_match (StarL P) (s @ F) k = shift F (rx_match (StarL P) s k)"
proof (induction s)
  case Nil
  then show ?case using base kn by simp
next
  case (Cons c s)
  have kc: "k (c # s @ F) = shift F (k (c # s))" using k [of "c # s"] by simp
  show ?case
  proof (cases "k (c # s)")
    case None
    then show ?thesis using Cons kc by simp
  next
    case (Some r)
    then show ?thesis using kc by (cases r) simp
  qed
qed

lemma html_tail_Nil: "html_tail [] = None"
  by (simp add: html_tail_def js_def)

lemma html_tail_plain:
  assumes "\<forall>x \<in> set F. ascii_upper x \<noteq> 62"
  shows "html_tail F = None"
  using html_tail_shift [OF assms, of "[]"] by (simp add: html_tail_Nil)

lemma html_here_shift:
  assumes f: "\<forall>x \<in> set F. ascii_upper x \<noteq> 62"
  shows "rx_match_here html_rx (s @ F) = shift F (rx_match_here html_rx s)"
proof -
  have d: "same_ci (take 15 (s @ F)) (js ''<!DOCTYPE html>'')
            = same_ci (take 15 s) (js ''<!DOCTYPE html>'')"
    using same_ci_take_append [of "js ''<!DOCTYPE html>''" F s, OF patterns_nonempty(1)] f
    by (simp add: last_patterns ascii_upper_values len15 del: list.size)
  have base: "rx_match (StarG any_unit) F html_tail = None"
  proof -
    have "\<forall>w s'. F = w @ s' \<and> (\<forall>c \<in> set w. any_unit c) \<longrightarrow> html_tail s' = None"
    proof (intro allI impI)
      fix w s' assume "F = w @ s' \<and> (\<forall>c \<in> set w. any_unit c)"
      then have "\<forall>x \<in> set s'. ascii_upper x \<noteq> 62" using f by auto
      then show "html_tail s' = None" by (rule html_tail_plain)
    qed
    then show ?thesis by (simp only: rx_match_StarG_None)
  qed
  show ?thesis
  proof (cases "same_ci (take 15 s) (js ''<!DOCTYPE html>'')")
    case True
    then have "length (take 15 s) = 15" using same_ci_length by fastforce
    then have dr: "drop 15 (s @ F) = drop 15 s @ F" by simp
    have "rx_match (StarG any_unit) (drop 15 s @ F) html_tail
            = shift F (rx_match (StarG any_unit) (drop 15 s) html_tail)"
      using StarG_shift [of html_tail F any_unit "drop 15 s"] html_tail_shift [OF f] base
        html_tail_Nil by simp
    then show ?thesis using True d dr by (simp add: html_here_unfold)
  next
    case False
    then show ?thesis using d by (simp add: html_here_unfold)
  qed
qed

lemma style_close_shift:
  assumes "\<forall>x \<in> set F. ascii_upper x \<noteq> 62"
  shows "style_close (s @ F) = shift F (style_close s)"
proof -
  have "same_ci (take 8 (s @ F)) (js ''</style>'') = same_ci (take 8 s) (js ''</style>'')"
    using same_ci_take_append [of "js ''</style>''" F s, OF patterns_nonempty(3)] assms
    by (simp add: last_patterns ascii_upper_values len8 del: list.size)
  moreover have "same_ci (take 8 s) (js ''</style>'') \<Longrightarrow> drop 8 (s @ F) = drop 8 s @ F"
  proof -
    assume "same_ci (take 8 s) (js ''</style>'')"
    then have "length (take 8 s) = 8" using same_ci_length by fastforce
    then show ?thesis by simp
  qed
  ultimately show ?thesis by (simp add: style_close_def)
qed

lemma style_close_Nil: "style_close [] = None"
  by (simp add: style_close_def js_def)

lemma style_close_plain:
  assumes "\<forall>x \<in> set F. ascii_upper x \<noteq> 62"
  shows "style_close F = None"
  using style_close_shift [OF assms, of "[]"] by (simp add: style_close_Nil)

lemma style_body_shift:
  assumes f: "\<forall>x \<in> set F. ascii_upper x \<noteq> 62"
  shows "style_body (s @ F) = shift F (style_body s)"
proof -
  have base: "rx_match (StarL any_unit) F style_close = None"
  proof -
    have "\<forall>w s'. F = w @ s' \<and> (\<forall>c \<in> set w. any_unit c) \<longrightarrow> style_close s' = None"
    proof (intro allI impI)
      fix w s' assume "F = w @ s' \<and> (\<forall>c \<in> set w. any_unit c)"
      then have "\<forall>x \<in> set s'. ascii_upper x \<noteq> 62" using f by auto
      then show "style_close s' = None" by (rule style_close_plain)
    qed
    then show ?thesis by (simp only: rx_match_StarL_None)
  qed
  have "rx_match (StarL any_unit) (s @ F) style_close
          = shift F (rx_match (StarL any_unit) s style_close)"
    using StarL_shift [of style_close F any_unit s] style_close_shift [OF f] base
      style_close_Nil by simp
  then show ?thesis
    by (cases "rx_match (StarL any_unit) s style_close") (auto simp: style_body_def)
qed

lemma style_body_plain:
  assumes "\<forall>x \<in> set F. ascii_upper x \<noteq> 62"
  shows "style_body F = None"
proof -
  have "style_body [] = None" by (simp add: style_body_def style_close_Nil)
  then show ?thesis using style_body_shift [OF assms, of "[]"] by simp
qed

lemma style_gt_shift:
  assumes f: "\<forall>x \<in> set F. ascii_upper x \<noteq> 62"
  shows "style_gt (s @ F) = shift F (style_gt s)"
proof -
  have g: "same_ci (take 1 (s @ F)) (js ''>'') = same_ci (take 1 s) (js ''>'')"
    using same_ci_take_append [of "js ''>''" F s, OF patterns_nonempty(4)] f
    by (simp add: last_patterns ascii_upper_values len1 del: list.size)
  show ?thesis
  proof (cases "same_ci (take 1 s) (js ''>'')")
    case True
    then have "length (take 1 s) = 1" using same_ci_length by fastforce
    then have "drop 1 (s @ F) = drop 1 s @ F" by simp
    then show ?thesis using True g style_body_shift [OF f, of "drop 1 s"]
      by (simp add: style_gt_def)
  next
    case False
    then show ?thesis using g by (simp add: style_gt_def)
  qed
qed

lemma style_gt_Nil: "style_gt [] = None"
  by (simp add: style_gt_def js_def)

lemma style_gt_plain:
  assumes "\<forall>x \<in> set F. ascii_upper x \<noteq> 62"
  shows "style_gt F = None"
  using style_gt_shift [OF assms, of "[]"] by (simp add: style_gt_Nil)

lemma style_here_shift:
  assumes f: "\<forall>x \<in> set F. ascii_upper x \<noteq> 62" and e: "\<forall>x \<in> set F. ascii_upper x \<noteq> 69"
  shows "rx_match_here style_rx (s @ F) = shift F (rx_match_here style_rx s)"
proof -
  have d: "same_ci (take 6 (s @ F)) (js ''<style'') = same_ci (take 6 s) (js ''<style'')"
    using same_ci_take_append [of "js ''<style''" F s, OF patterns_nonempty(5)] e
    by (simp add: last_patterns ascii_upper_values len6 del: list.size)
  have base: "rx_match (StarG not_gt) F style_gt = None"
  proof -
    have "\<forall>w s'. F = w @ s' \<and> (\<forall>c \<in> set w. not_gt c) \<longrightarrow> style_gt s' = None"
    proof (intro allI impI)
      fix w s' assume "F = w @ s' \<and> (\<forall>c \<in> set w. not_gt c)"
      then have "\<forall>x \<in> set s'. ascii_upper x \<noteq> 62" using f by auto
      then show "style_gt s' = None" by (rule style_gt_plain)
    qed
    then show ?thesis by (simp only: rx_match_StarG_None)
  qed
  show ?thesis
  proof (cases "same_ci (take 6 s) (js ''<style'')")
    case True
    then have "length (take 6 s) = 6" using same_ci_length by fastforce
    then have dr: "drop 6 (s @ F) = drop 6 s @ F" by simp
    have "rx_match (StarG not_gt) (drop 6 s @ F) style_gt
            = shift F (rx_match (StarG not_gt) (drop 6 s) style_gt)"
      using StarG_shift [of style_gt F not_gt "drop 6 s"] style_gt_shift [OF f] base
        style_gt_Nil by simp
    then show ?thesis using True d dr by (simp add: style_here_unfold)
  next
    case False
    then show ?thesis using d by (simp add: style_here_unfold)
  qed
qed

lemma rx_exec_shift:
  assumes here: "\<And>x. rx_match_here r (x @ F) = shift F (rx_match_here r x)"
    and base: "rx_exec r F = None"
  shows "rx_exec r (s @ F)
           = map_option (\<lambda>(s', ms, e). (s' @ F, map (\<lambda>m. m @ F) ms, e @ F)) (rx_exec r s)"
proof (induction s)
  case Nil
  have "rx_match_here r F = None"
    using base rx_exec_None [of r F] by (metis append_Nil)
  then have "shift F (rx_match_here r []) = None" using here [of "[]"] by simp
  then have "rx_match_here r [] = None" by (cases "rx_match_here r []") (simp_all add: shift_def)
  then show ?case using base by simp
next
  case (Cons c s)
  have h: "rx_match_here r (c # s @ F) = shift F (rx_match_here r (c # s))"
    using here [of "c # s"] by simp
  show ?case
  proof (cases "rx_match_here r (c # s)")
    case None
    then show ?thesis using h Cons by simp
  next
    case (Some res)
    then show ?thesis using h by (cases res) simp
  qed
qed

lemma rx_exec_plain:
  assumes here: "\<And>x F'. set F' \<subseteq> set F \<Longrightarrow> rx_match_here r (x @ F') = shift F' (rx_match_here r x)"
    and nil: "rx_match_here r [] = None"
  shows "rx_exec r F = None"
proof -
  have "\<forall>pre s'. F = pre @ s' \<longrightarrow> rx_match_here r s' = None"
  proof (intro allI impI)
    fix pre s' assume "F = pre @ s'"
    then have "set s' \<subseteq> set F" by auto
    from here [OF this, of "[]"] show "rx_match_here r s' = None" using nil by simp
  qed
  then show ?thesis by (simp only: rx_exec_None)
qed

lemma html_here_Nil: "rx_match_here html_rx [] = None"
  by (simp add: html_here_unfold js_def)

lemma style_here_Nil: "rx_match_here style_rx [] = None"
  by (simp add: style_here_unfold js_def)

lemma htmlMatch_append_plain:
  assumes f: "\<forall>x \<in> set F. ascii_upper x \<noteq> 62"
  shows "htmlMatch (s @ F) = htmlMatch s"
proof -
  have sub: "\<And>F'. set F' \<subseteq> set F \<Longrightarrow> \<forall>x \<in> set F'. ascii_upper x \<noteq> 62" using f by auto
  have base: "rx_exec html_rx F = None"
    using rx_exec_plain [of F html_rx] html_here_shift sub html_here_Nil by blast
  have ex: "rx_exec html_rx (s @ F)
           = map_option (\<lambda>(s', ms, e). (s' @ F, map (\<lambda>m. m @ F) ms, e @ F)) (rx_exec html_rx s)"
    using rx_exec_shift [of html_rx F s] html_here_shift [OF f] base by blast
  show ?thesis
  proof (cases "rx_exec html_rx s")
    case None
    then show ?thesis using ex by (simp add: htmlMatch_def)
  next
    case (Some r)
    obtain s' ms e where r: "r = (s', ms, e)" by (cases r)
    have "rx_match_here html_rx s' = Some (ms, e)"
      using rx_exec_Some [of html_rx s s' "(ms, e)"] Some r by blast
    then obtain d m c where "s' = d @ m @ c @ e" using html_here_Some by blast
    then have "s' = (d @ m @ c) @ e" by simp
    then have "between (s' @ F) (e @ F) = between s' e"
      by (simp add: between_def)
    then show ?thesis using ex Some r by (simp add: htmlMatch_def)
  qed
qed

lemma cssMatch_append_plain:
  assumes f: "\<forall>x \<in> set F. ascii_upper x \<noteq> 62" and e: "\<forall>x \<in> set F. ascii_upper x \<noteq> 69"
  shows "cssMatch (s @ F) = cssMatch s"
proof -
  have sub: "\<And>F'. set F' \<subseteq> set F \<Longrightarrow>
      (\<forall>x \<in> set F'. ascii_upper x \<noteq> 62) \<and> (\<forall>x \<in> set F'. ascii_upper x \<noteq> 69)"
    using f e by auto
  have base: "rx_exec style_rx F = None"
    using rx_exec_plain [of F style_rx] style_here_shift sub style_here_Nil by blast
  have ex: "rx_exec style_rx (s @ F)
           = map_option (\<lambda>(s', ms, e). (s' @ F, map (\<lambda>m. m @ F) ms, e @ F)) (rx_exec style_rx s)"
    using rx_exec_shift [of style_rx F s] style_here_shift [OF f e] base by blast
  show ?thesis
  proof (cases "rx_exec style_rx s")
    case None
    then show ?thesis using ex by (simp add: cssMatch_def)
  next
    case (Some r)
    obtain s' ms e where r: "r = (s', ms, e)" by (cases r)
    have "rx_match_here style_rx s' = Some (ms, e)"
      using rx_exec_Some [of style_rx s s' "(ms, e)"] Some r by blast
    then obtain c cl where ms: "ms = [c @ cl @ e, cl @ e]" using style_here_Some by blast
    have "between ((c @ cl @ e) @ F) ((cl @ e) @ F) = between (c @ cl @ e) (cl @ e)"
      by (simp add: between_def)
    then show ?thesis using ex Some r ms by (simp add: cssMatch_def)
  qed
qed

lemma rx_exec_skip_html:
  "ascii_upper c \<noteq> 60 \<Longrightarrow> rx_exec html_rx (c # r) = rx_exec html_rx r"
  by (simp add: html_here_unfold js_def same_ci_def ascii_upper_values)

lemma rx_exec_skip_style:
  "ascii_upper c \<noteq> 60 \<Longrightarrow> rx_exec style_rx (c # r) = rx_exec style_rx r"
  by (simp add: style_here_unfold js_def same_ci_def ascii_upper_values)

lemma fence_units:
  "ascii_upper 96 = 96" "ascii_upper 10 = 10" "ascii_upper 106 = 74" "ascii_upper 115 = 83"
  "ascii_upper 111 = 79" "ascii_upper 110 = 78"
  by (simp_all add: ascii_upper_def)

lemma matches_json_fence:
  "htmlMatch (js ''```json\<newline>'' @ s @ js ''\<newline>```'') = htmlMatch s"
  "cssMatch (js ''```json\<newline>'' @ s @ js ''\<newline>```'') = cssMatch s"
proof -
  have o: "js ''```json\<newline>'' = [96, 96, 96, 106, 115, 111, 110, 10]"
    and c: "js ''\<newline>```'' = [10, 96, 96, 96]"
    by (simp_all add: js_def)
  have h: "htmlMatch (js ''```json\<newline>'' @ t) = htmlMatch t" for t
    by (simp add: o htmlMatch_def rx_exec_skip_html fence_units del: rx_exec.simps)
  have s: "cssMatch (js ''```json\<newline>'' @ t) = cssMatch t" for t
    by (simp add: o cssMatch_def rx_exec_skip_style fence_units del: rx_exec.simps)
  show "htmlMatch (js ''```json\<newline>'' @ s @ js ''\<newline>```'') = htmlMatch s"
    unfolding h c by (rule htmlMatch_append_plain) (simp add: fence_units)
  show "cssMatch (js ''```json\<newline>'' @ s @ js ''\<newline>```'') = cssMatch s"
    unfolding s c by (rule cssMatch_append_plain) (simp_all add: fence_units)
qed

lemma matches_plain_fence:
  "htmlMatch (js ''```\<newline>'' @ s @ js ''\<newline>```'') = htmlMatch s"
  "cssMatch (js ''```\<newline>'' @ s @ js ''\<newline>```'') = cssMatch s"
proof -
  have o: "js ''```\<newline>'' = [96, 96, 96, 10]"
    and c: "js ''\<newline>```'' = [10, 96, 96, 96]"
    by (simp_all add: js_def)
  have h: "htmlMatch (js ''```\<newline>'' @ t) = htmlMatch t" for t
    by (simp add: o htmlMatch_def rx_exec_skip_html fence_units del: rx_exec.simps)
  have s: "cssMatch (js ''```\<newline>'' @ t) = cssMatch t" for t
    by (simp add: o cssMatch_def rx_exec_skip_style fence_units del: rx_exec.simps)
  show "htmlMatch (js ''```\<newline>'' @ s @ js ''\<newline>```'') = htmlMatch s"
    unfolding h c by (rule htmlMatch_append_plain) (simp add: fence_units)
  show "cssMatch (js ''```\<newline>'' @ s @ js ''\<newline>```'') = cssMatch s"
    unfolding s c by (rule cssMatch_append_plain) (simp_all add: fence_units)
qed

lemma generateWebsite_fenced:
  "generateWebsite JSON_parse (js ''```json\<newline>'' @ s @ js ''\<newline>```'') = generateWebsite JSON_parse s"
  "generateWebsite JSON_parse (js ''```\<newline>'' @ s @ js ''\<newline>```'') = generateWebsite JSON_parse s"
  by (simp_all only: generateWebsite_def cleaned_json_fence cleaned_plain_fence
      matches_json_fence matches_plain_fence)

lemma regenerateSection_fenced:
  "regenerateSection JSON_parse h c (js ''```json\<newline>'' @ s @ js ''\<newline>```'')
     = regenerateSection JSON_parse h c s"
  "regenerateSection JSON_parse h c (js ''```\<newline>'' @ s @ js ''\<newline>```'')
     = regenerateSection JSON_parse h c s"
  by (simp_all only: regenerateSection_def cleaned_json_fence cleaned_plain_fence
      matches_json_fence matches_plain_fence)

section \<open>The examples, evaluated\<close>

lemma ex_cleaned: "cleanedContent (js ''```json\<newline>'' @ example_json_text @ js ''\<newline>```'') = example_json_text"
  by code_simp

lemma ex_cleaned2: "cleanedContent example_html_response = example_html_response"
  by code_simp

lemma ex_parse2: "example_JSON_parse example_html_response = None"
  by code_simp

lemma ex_html: "htmlMatch example_html_response
   = Some (js ''<!DOCTYPE html><HTML><head><style media=all>p{}</style></head></HTML>'')"
  by code_simp

lemma ex_css: "cssMatch example_html_response = Some (js ''p{}'')"
  by code_simp

lemma ex_refusal: "cleanedContent (js ''I cannot help with that.'') = js ''I cannot help with that.''"
  "example_JSON_parse (js ''I cannot help with that.'') = None"
  "htmlMatch (js ''I cannot help with that.'') = None"
  by code_simp+

lemma ex_parse1:
  "example_JSON_parse example_json_text
     = Some (JObject [(js ''html'', JString (js ''<p>hi</p>'')), (js ''css'', JString (js ''p{}''))])"
  by (simp add: example_JSON_parse_def)

lemma ex_keys:
  "map_of [(js ''html'', JString (js ''<p>hi</p>'')), (js ''css'', JString (js ''p{}''))] (js ''html'')
     = Some (JString (js ''<p>hi</p>''))"
  "map_of [(js ''html'', JString (js ''<p>hi</p>'')), (js ''css'', JString (js ''p{}''))] (js ''css'')
     = Some (JString (js ''p{}''))"
  by code_simp+

lemma ex_empty_object:
  "cleanedContent (js ''{}'') = js ''{}''"
  "example_JSON_parse (js ''{}'') = Some (JObject [])"
  by code_simp+

lemma ex_empty_object_html: "htmlMatch (js ''{}'') = None"
  by code_simp

lemma ex_refusal_css: "cssMatch (js ''I cannot help with that.'') = None"
  by code_simp

lemma ex_old_differs:
  "js ''<!DOCTYPE html><HTML><head><style media=all>p{}</style></head></HTML>'' \<noteq> js ''<p>old</p>''"
  by code_simp

lemma ex_null:
  "cleanedContent (js ''null'') = js ''null''"
  "example_JSON_parse (js ''null'') = Some JNull"
  "htmlMatch (js ''null'') = None"
  by code_simp+

section \<open>Parsing the provider's response\<close>

text \<open>
  C8, as amended. \<open>generateWebsite\<close>, on every response text \<open>content\<close>:
  \<^item> when \<open>JSON.parse\<close> accepts the cleaned text and gives a value other than
    \<open>null\<close>, the result is \<open>{html: parsed.html || "", css: parsed.css || ""}\<close>,
    without an error and without looking for an HTML document: exactly the two fields
    when both are present and truthy (or strings), and the empty string for both when
    the value is not an object or is an object with neither field;
  \<^item> the cleaned text of a response wrapped in a code fence (with or without the
    \<open>json\<close> tag) is the cleaned text of the response itself, so \<open>JSON.parse\<close> sees
    the same text, and the result for the wrapped response is the result for the
    response itself;
  \<^item> when \<open>JSON.parse\<close> throws, or gives \<open>null\<close> (reading \<open>parsed.html\<close> then
    throws), the result is the HTML document matched in the response, with the contents
    of the first style block as \<open>css\<close> (empty when there is none), and the error
    \<open>Failed to generate website. Please try again.\<close> when no HTML document matches;
  \<^item> the call fails exactly when \<open>JSON.parse\<close> throws or gives \<open>null\<close> and no HTML
    document matches, and then with that error;
  \<^item> the HTML match is a part of the response that begins with \<open><!DOCTYPE html>\<close> and
    ends with \<open></html>\<close>, both without regard to case, and there is a match exactly
    when the response has such a part;
  \<^item> the style match is the text between \<open><style ...>\<close> and the first \<open></style>\<close>
    after it, for the leftmost position of the response where such a block begins, and
    there is a match exactly when the response has such a block.
\<close>

theorem generateWebsite_parse:
  "(\<forall>v h c. JSON_parse (cleanedContent content) = Some v
        \<and> get_property v (js ''html'') = Some h \<and> get_property v (js ''css'') = Some c \<longrightarrow>
      generateWebsite JSON_parse content
        = Inr \<lparr>html = js_or h (JString []), css = js_or c (JString [])\<rparr>)
   \<and> (\<forall>kvs h c. JSON_parse (cleanedContent content) = Some (JObject kvs)
        \<and> map_of kvs (js ''html'') = Some (JString h)
        \<and> map_of kvs (js ''css'') = Some (JString c) \<longrightarrow>
      generateWebsite JSON_parse content = Inr \<lparr>html = JString h, css = JString c\<rparr>)
   \<and> cleanedContent (js ''```json\<newline>'' @ content @ js ''\<newline>```'') = cleanedContent content
   \<and> cleanedContent (js ''```\<newline>'' @ content @ js ''\<newline>```'') = cleanedContent content
   \<and> generateWebsite JSON_parse (js ''```json\<newline>'' @ content @ js ''\<newline>```'')
       = generateWebsite JSON_parse content
   \<and> generateWebsite JSON_parse (js ''```\<newline>'' @ content @ js ''\<newline>```'')
       = generateWebsite JSON_parse content
   \<and> (JSON_parse (cleanedContent content) \<in> {None, Some JNull} \<longrightarrow>
        generateWebsite JSON_parse content =
          (case htmlMatch content of
             Some h \<Rightarrow>
               Inr \<lparr>html = JString h,
                    css = JString (case cssMatch content of Some c \<Rightarrow> c | None \<Rightarrow> [])\<rparr>
           | None \<Rightarrow> Inl (Error (js ''Failed to generate website. Please try again.''))))
   \<and> (\<forall>h. htmlMatch content = Some h \<longrightarrow>
        (\<exists>pre d m c post. content = pre @ h @ post \<and> h = d @ m @ c
           \<and> same_ci d (js ''<!DOCTYPE html>'') \<and> same_ci c (js ''</html>'')))
   \<and> (htmlMatch content = None) =
        (\<not> (\<exists>pre d m c post. content = pre @ d @ m @ c @ post
            \<and> same_ci d (js ''<!DOCTYPE html>'') \<and> same_ci c (js ''</html>'')))
   \<and> (\<forall>c. cssMatch content = Some c \<longrightarrow>
        (\<exists>pre opn tag cl post. content = pre @ opn @ tag @ js ''>'' @ c @ cl @ post
           \<and> same_ci opn (js ''<style'') \<and> (\<forall>x \<in> set tag. not_gt x)
           \<and> same_ci cl (js ''</style>'')
           \<and> (\<forall>c1 c2. c = c1 @ c2 \<and> c2 \<noteq> [] \<longrightarrow>
                  \<not> same_ci (take 8 (c2 @ cl @ post)) (js ''</style>''))
           \<and> (\<forall>p1 p2. pre = p1 @ p2 \<and> p2 \<noteq> [] \<longrightarrow>
                  rx_match_here style_rx (p2 @ opn @ tag @ js ''>'' @ c @ cl @ post) = None)))
   \<and> (cssMatch content = None) =
        (\<not> (\<exists>pre opn tag c cl post. content = pre @ opn @ tag @ js ''>'' @ c @ cl @ post
            \<and> same_ci opn (js ''<style'') \<and> (\<forall>x \<in> set tag. not_gt x)
            \<and> same_ci cl (js ''</style>'')))
   \<and> (\<forall>v. JSON_parse (cleanedContent content) = Some v \<and> v \<noteq> JNull \<longrightarrow>
        (\<exists>h c. get_property v (js ''html'') = Some h \<and> get_property v (js ''css'') = Some c
           \<and> generateWebsite JSON_parse content
               = Inr \<lparr>html = js_or h (JString []), css = js_or c (JString [])\<rparr>))
   \<and> (\<exists>e. generateWebsite JSON_parse content = Inl e)
        = (JSON_parse (cleanedContent content) \<in> {None, Some JNull} \<and> htmlMatch content = None)
   \<and> (\<forall>e. generateWebsite JSON_parse content = Inl e \<longrightarrow>
        e = Error (js ''Failed to generate website. Please try again.''))
   \<and> (\<forall>kvs h c. JSON_parse (cleanedContent content) = Some (JObject kvs)
        \<and> map_of kvs (js ''html'') = Some h \<and> map_of kvs (js ''css'') = Some c
        \<and> truthy h \<and> truthy c \<longrightarrow>
      generateWebsite JSON_parse content = Inr \<lparr>html = h, css = c\<rparr>)
   \<and> (\<forall>v. JSON_parse (cleanedContent content) = Some v \<and> v \<noteq> JNull
        \<and> (\<forall>kvs. v = JObject kvs \<longrightarrow>
              map_of kvs (js ''html'') = None \<and> map_of kvs (js ''css'') = None) \<longrightarrow>
      generateWebsite JSON_parse content = Inr \<lparr>html = JString [], css = JString []\<rparr>)"
proof (intro conjI allI impI)
  fix v h c
  assume "JSON_parse (cleanedContent content) = Some v
        \<and> get_property v (js ''html'') = Some h \<and> get_property v (js ''css'') = Some c"
  then show "generateWebsite JSON_parse content
        = Inr \<lparr>html = js_or h (JString []), css = js_or c (JString [])\<rparr>"
    using generateWebsite_strict by blast
next
  fix kvs h c
  assume a: "JSON_parse (cleanedContent content) = Some (JObject kvs)
        \<and> map_of kvs (js ''html'') = Some (JString h)
        \<and> map_of kvs (js ''css'') = Some (JString c)"
  then have "get_property (JObject kvs) (js ''html'') = Some (Some (JString h))"
    "get_property (JObject kvs) (js ''css'') = Some (Some (JString c))" by simp_all
  from generateWebsite_strict [OF _ this] a
  have "generateWebsite JSON_parse content
          = Inr \<lparr>html = js_or (Some (JString h)) (JString []),
                 css = js_or (Some (JString c)) (JString [])\<rparr>" by blast
  then show "generateWebsite JSON_parse content = Inr \<lparr>html = JString h, css = JString c\<rparr>"
    by (cases "h = []"; cases "c = []") simp_all
next
  show "cleanedContent (js ''```json\<newline>'' @ content @ js ''\<newline>```'') = cleanedContent content"
    by (rule cleaned_json_fence)
next
  show "cleanedContent (js ''```\<newline>'' @ content @ js ''\<newline>```'') = cleanedContent content"
    by (rule cleaned_plain_fence)
next
  show "generateWebsite JSON_parse (js ''```json\<newline>'' @ content @ js ''\<newline>```'')
       = generateWebsite JSON_parse content"
    by (rule generateWebsite_fenced)
next
  show "generateWebsite JSON_parse (js ''```\<newline>'' @ content @ js ''\<newline>```'')
       = generateWebsite JSON_parse content"
    by (rule generateWebsite_fenced)
next
  assume "JSON_parse (cleanedContent content) \<in> {None, Some JNull}"
  then show "generateWebsite JSON_parse content =
          (case htmlMatch content of
             Some h \<Rightarrow>
               Inr \<lparr>html = JString h,
                    css = JString (case cssMatch content of Some c \<Rightarrow> c | None \<Rightarrow> [])\<rparr>
           | None \<Rightarrow> Inl (Error (js ''Failed to generate website. Please try again.'')))"
    by (rule generateWebsite_fallback)
next
  fix h assume "htmlMatch content = Some h"
  then show "\<exists>pre d m c post. content = pre @ h @ post \<and> h = d @ m @ c
           \<and> same_ci d (js ''<!DOCTYPE html>'') \<and> same_ci c (js ''</html>'')"
    by (rule htmlMatch_Some)
next
  show "(htmlMatch content = None) =
        (\<not> (\<exists>pre d m c post. content = pre @ d @ m @ c @ post
            \<and> same_ci d (js ''<!DOCTYPE html>'') \<and> same_ci c (js ''</html>'')))"
    by (rule htmlMatch_None)
next
  fix c assume "cssMatch content = Some c"
  then show "\<exists>pre opn tag cl post. content = pre @ opn @ tag @ js ''>'' @ c @ cl @ post
           \<and> same_ci opn (js ''<style'') \<and> (\<forall>x \<in> set tag. not_gt x)
           \<and> same_ci cl (js ''</style>'')
           \<and> (\<forall>c1 c2. c = c1 @ c2 \<and> c2 \<noteq> [] \<longrightarrow>
                  \<not> same_ci (take 8 (c2 @ cl @ post)) (js ''</style>''))
           \<and> (\<forall>p1 p2. pre = p1 @ p2 \<and> p2 \<noteq> [] \<longrightarrow>
                  rx_match_here style_rx (p2 @ opn @ tag @ js ''>'' @ c @ cl @ post) = None)"
    by (rule cssMatch_Some)
next
  show "(cssMatch content = None) =
        (\<not> (\<exists>pre opn tag c cl post. content = pre @ opn @ tag @ js ''>'' @ c @ cl @ post
            \<and> same_ci opn (js ''<style'') \<and> (\<forall>x \<in> set tag. not_gt x)
            \<and> same_ci cl (js ''</style>'')))"
    by (rule cssMatch_None)
next
  fix v
  assume a: "JSON_parse (cleanedContent content) = Some v \<and> v \<noteq> JNull"
  show "\<exists>h c. get_property v (js ''html'') = Some h \<and> get_property v (js ''css'') = Some c
           \<and> generateWebsite JSON_parse content
               = Inr \<lparr>html = js_or h (JString []), css = js_or c (JString [])\<rparr>"
    by (rule generateWebsite_total_strict [of JSON_parse content v,
          OF a [THEN conjunct1] a [THEN conjunct2]])
next
  show "(\<exists>e. generateWebsite JSON_parse content = Inl e)
        = (JSON_parse (cleanedContent content) \<in> {None, Some JNull} \<and> htmlMatch content = None)"
    by (rule generateWebsite_error)
next
  fix e assume "generateWebsite JSON_parse content = Inl e"
  then show "e = Error (js ''Failed to generate website. Please try again.'')"
    by (rule generateWebsite_error_message)
next
  fix kvs h c
  assume a: "JSON_parse (cleanedContent content) = Some (JObject kvs)
        \<and> map_of kvs (js ''html'') = Some h \<and> map_of kvs (js ''css'') = Some c
        \<and> truthy h \<and> truthy c"
  show "generateWebsite JSON_parse content = Inr \<lparr>html = h, css = c\<rparr>"
    by (rule generateWebsite_truthy [of JSON_parse content kvs h c,
          OF a [THEN conjunct1] a [THEN conjunct2, THEN conjunct1]
             a [THEN conjunct2, THEN conjunct2, THEN conjunct1]
             a [THEN conjunct2, THEN conjunct2, THEN conjunct2, THEN conjunct1]
             a [THEN conjunct2, THEN conjunct2, THEN conjunct2, THEN conjunct2]])
next
  fix v
  assume a: "JSON_parse (cleanedContent content) = Some v \<and> v \<noteq> JNull
        \<and> (\<forall>kvs. v = JObject kvs \<longrightarrow>
              map_of kvs (js ''html'') = None \<and> map_of kvs (js ''css'') = None)"
  show "generateWebsite JSON_parse content = Inr \<lparr>html = JString [], css = JString []\<rparr>"
    by (rule generateWebsite_no_fields [of JSON_parse content v,
          OF a [THEN conjunct1] a [THEN conjunct2, THEN conjunct1]
             a [THEN conjunct2, THEN conjunct2]])
qed

theorem generateWebsite_parse_witness:
  "generateWebsite example_JSON_parse (js ''```json\<newline>'' @ example_json_text @ js ''\<newline>```'')
     = Inr \<lparr>html = JString (js ''<p>hi</p>''), css = JString (js ''p{}'')\<rparr>
   \<and> generateWebsite example_JSON_parse example_html_response
     = Inr \<lparr>html = JString (js ''<!DOCTYPE html><HTML><head><style media=all>p{}</style></head></HTML>''),
            css = JString (js ''p{}'')\<rparr>
   \<and> generateWebsite example_JSON_parse (js ''I cannot help with that.'')
     = Inl (Error (js ''Failed to generate website. Please try again.''))
   \<and> generateWebsite example_JSON_parse (js ''null'')
     = Inl (Error (js ''Failed to generate website. Please try again.''))
   \<and> generateWebsite example_JSON_parse (js ''{}'')
     = Inr \<lparr>html = JString [], css = JString []\<rparr>
   \<and> (\<exists>pre d m c post.
         example_html_response
           = pre @ js ''<!DOCTYPE html><HTML><head><style media=all>p{}</style></head></HTML>'' @ post
         \<and> js ''<!DOCTYPE html><HTML><head><style media=all>p{}</style></head></HTML>'' = d @ m @ c
         \<and> same_ci d (js ''<!DOCTYPE html>'') \<and> same_ci c (js ''</html>''))
   \<and> (\<exists>pre opn tag cl post.
         example_html_response = pre @ opn @ tag @ js ''>'' @ js ''p{}'' @ cl @ post
         \<and> same_ci opn (js ''<style'') \<and> (\<forall>x \<in> set tag. not_gt x)
         \<and> same_ci cl (js ''</style>'')
         \<and> (\<forall>c1 c2. js ''p{}'' = c1 @ c2 \<and> c2 \<noteq> [] \<longrightarrow>
                \<not> same_ci (take 8 (c2 @ cl @ post)) (js ''</style>''))
         \<and> (\<forall>p1 p2. pre = p1 @ p2 \<and> p2 \<noteq> [] \<longrightarrow>
                rx_match_here style_rx (p2 @ opn @ tag @ js ''>'' @ js ''p{}'' @ cl @ post) = None))
   \<and> \<not> (\<exists>pre opn tag c cl post.
           js ''I cannot help with that.'' = pre @ opn @ tag @ js ''>'' @ c @ cl @ post
           \<and> same_ci opn (js ''<style'') \<and> (\<forall>x \<in> set tag. not_gt x)
           \<and> same_ci cl (js ''</style>''))
   \<and> (\<exists>e. generateWebsite example_JSON_parse (js ''I cannot help with that.'') = Inl e)
   \<and> \<not> (\<exists>e. generateWebsite example_JSON_parse (js ''{}'') = Inl e)"
proof -
  let ?fenced = "js ''```json\<newline>'' @ example_json_text @ js ''\<newline>```''"
  have p: "example_JSON_parse (cleanedContent ?fenced)
             = Some (JObject [(js ''html'', JString (js ''<p>hi</p>'')), (js ''css'', JString (js ''p{}''))])"
    by (simp only: ex_cleaned ex_parse1)
  have 1: "generateWebsite example_JSON_parse ?fenced
     = Inr \<lparr>html = JString (js ''<p>hi</p>''), css = JString (js ''p{}'')\<rparr>"
    using generateWebsite_parse [of example_JSON_parse ?fenced, THEN conjunct2, THEN conjunct1,
        rule_format, OF conjI [OF p conjI [OF ex_keys]]] .
  have f2: "example_JSON_parse (cleanedContent example_html_response) \<in> {None, Some JNull}"
    by (simp add: ex_cleaned2 ex_parse2)
  have 2: "generateWebsite example_JSON_parse example_html_response
     = Inr \<lparr>html = JString (js ''<!DOCTYPE html><HTML><head><style media=all>p{}</style></head></HTML>''),
            css = JString (js ''p{}'')\<rparr>"
    using generateWebsite_parse [of example_JSON_parse example_html_response,
        THEN conjunct2, THEN conjunct2, THEN conjunct2, THEN conjunct2, THEN conjunct2,
        THEN conjunct2, THEN conjunct1, THEN mp, OF f2]
    by (simp only: ex_html ex_css option.case)
  have f3: "example_JSON_parse (cleanedContent (js ''I cannot help with that.'')) \<in> {None, Some JNull}"
    by (simp add: ex_refusal)
  have 3: "generateWebsite example_JSON_parse (js ''I cannot help with that.'')
     = Inl (Error (js ''Failed to generate website. Please try again.''))"
    using generateWebsite_parse [of example_JSON_parse "js ''I cannot help with that.''",
        THEN conjunct2, THEN conjunct2, THEN conjunct2, THEN conjunct2, THEN conjunct2,
        THEN conjunct2, THEN conjunct1, THEN mp, OF f3]
    by (simp only: ex_refusal option.case)
  have f4: "example_JSON_parse (cleanedContent (js ''null'')) \<in> {None, Some JNull}"
    by (simp add: ex_null)
  have 4: "generateWebsite example_JSON_parse (js ''null'')
     = Inl (Error (js ''Failed to generate website. Please try again.''))"
    using generateWebsite_parse [of example_JSON_parse "js ''null''",
        THEN conjunct2, THEN conjunct2, THEN conjunct2, THEN conjunct2, THEN conjunct2,
        THEN conjunct2, THEN conjunct1, THEN mp, OF f4]
    by (simp only: ex_null option.case)
  have p5: "example_JSON_parse (cleanedContent (js ''{}'')) = Some (JObject [])
      \<and> get_property (JObject []) (js ''html'') = Some None
      \<and> get_property (JObject []) (js ''css'') = Some None"
    by (simp add: ex_empty_object)
  have 5: "generateWebsite example_JSON_parse (js ''{}'')
     = Inr \<lparr>html = JString [], css = JString []\<rparr>"
    using generateWebsite_parse [of example_JSON_parse "js ''{}''", THEN conjunct1,
        rule_format, OF p5]
    by simp
  have 6: "\<exists>pre d m c post.
         example_html_response
           = pre @ js ''<!DOCTYPE html><HTML><head><style media=all>p{}</style></head></HTML>'' @ post
         \<and> js ''<!DOCTYPE html><HTML><head><style media=all>p{}</style></head></HTML>'' = d @ m @ c
         \<and> same_ci d (js ''<!DOCTYPE html>'') \<and> same_ci c (js ''</html>'')"
    using generateWebsite_parse [of example_JSON_parse example_html_response,
        THEN conjunct2, THEN conjunct2, THEN conjunct2, THEN conjunct2, THEN conjunct2,
        THEN conjunct2, THEN conjunct2, THEN conjunct1, rule_format, OF ex_html] .
  have 7: "(\<exists>pre opn tag cl post.
             example_html_response = pre @ opn @ tag @ js ''>'' @ js ''p{}'' @ cl @ post
             \<and> same_ci opn (js ''<style'') \<and> (\<forall>x \<in> set tag. not_gt x)
             \<and> same_ci cl (js ''</style>'')
             \<and> (\<forall>c1 c2. js ''p{}'' = c1 @ c2 \<and> c2 \<noteq> [] \<longrightarrow>
                    \<not> same_ci (take 8 (c2 @ cl @ post)) (js ''</style>''))
             \<and> (\<forall>p1 p2. pre = p1 @ p2 \<and> p2 \<noteq> [] \<longrightarrow>
                    rx_match_here style_rx (p2 @ opn @ tag @ js ''>'' @ js ''p{}'' @ cl @ post) = None))"
    using generateWebsite_parse [of example_JSON_parse example_html_response,
        THEN conjunct2, THEN conjunct2, THEN conjunct2, THEN conjunct2, THEN conjunct2,
        THEN conjunct2, THEN conjunct2, THEN conjunct2, THEN conjunct2, THEN conjunct1,
        rule_format, OF ex_css] .
  have 8: "\<not> (\<exists>pre opn tag c cl post.
           js ''I cannot help with that.'' = pre @ opn @ tag @ js ''>'' @ c @ cl @ post
           \<and> same_ci opn (js ''<style'') \<and> (\<forall>x \<in> set tag. not_gt x)
           \<and> same_ci cl (js ''</style>''))"
    using generateWebsite_parse [of example_JSON_parse "js ''I cannot help with that.''",
        THEN conjunct2, THEN conjunct2, THEN conjunct2, THEN conjunct2, THEN conjunct2,
        THEN conjunct2, THEN conjunct2, THEN conjunct2, THEN conjunct2, THEN conjunct2,
        THEN conjunct1, THEN iffD1, OF ex_refusal_css] .
  have f9: "example_JSON_parse (cleanedContent (js ''I cannot help with that.'')) \<in> {None, Some JNull}
      \<and> htmlMatch (js ''I cannot help with that.'') = None"
    by (simp add: ex_refusal)
  have 9: "\<exists>e. generateWebsite example_JSON_parse (js ''I cannot help with that.'') = Inl e"
    using generateWebsite_parse [of example_JSON_parse "js ''I cannot help with that.''",
        THEN conjunct2, THEN conjunct2, THEN conjunct2, THEN conjunct2, THEN conjunct2,
        THEN conjunct2, THEN conjunct2, THEN conjunct2, THEN conjunct2, THEN conjunct2,
        THEN conjunct2, THEN conjunct2, THEN conjunct1, THEN iffD2, OF f9] .
  have f10: "\<not> (example_JSON_parse (cleanedContent (js ''{}'')) \<in> {None, Some JNull}
      \<and> htmlMatch (js ''{}'') = None)"
    by (simp add: ex_empty_object)
  have 10: "\<not> (\<exists>e. generateWebsite example_JSON_parse (js ''{}'') = Inl e)"
  proof
    assume "\<exists>e. generateWebsite example_JSON_parse (js ''{}'') = Inl e"
    then have "example_JSON_parse (cleanedContent (js ''{}'')) \<in> {None, Some JNull}
        \<and> htmlMatch (js ''{}'') = None"
      by (rule generateWebsite_parse [of example_JSON_parse "js ''{}''",
          THEN conjunct2, THEN conjunct2, THEN conjunct2, THEN conjunct2, THEN conjunct2,
          THEN conjunct2, THEN conjunct2, THEN conjunct2, THEN conjunct2, THEN conjunct2,
          THEN conjunct2, THEN conjunct2, THEN conjunct1, THEN iffD1])
    with f10 show False by (rule notE)
  qed
  show ?thesis by (intro conjI) (rule 1 2 3 4 5 6 7 8 9 10)+
qed

text \<open>
  C8 as stated fails: the response \<open>{}\<close> is valid JSON with no \<open>html\<close> field and holds
  no HTML document, so no HTML is recovered by either path, and the call does not fail:
  it returns an empty \<open>html\<close> and an empty \<open>css\<close>.
\<close>

theorem generateWebsite_parse_counterexample:
  "example_JSON_parse (cleanedContent (js ''{}'')) = Some (JObject [])
   \<and> htmlMatch (js ''{}'') = None
   \<and> generateWebsite example_JSON_parse (js ''{}'')
     = Inr \<lparr>html = JString [], css = JString []\<rparr>"
proof -
  have p: "example_JSON_parse (cleanedContent (js ''{}'')) = Some (JObject [])"
    by (simp only: ex_empty_object)
  have g: "generateWebsite example_JSON_parse (js ''{}'')
     = Inr \<lparr>html = JString [], css = JString []\<rparr>"
    by (simp add: generateWebsite_def p)
  show ?thesis by (intro conjI) (rule p ex_empty_object_html g)+
qed

text \<open>
  C9, as amended. \<open>regenerateSection\<close>, on every response text \<open>content\<close>:
  \<^item> when \<open>JSON.parse\<close> accepts the cleaned text and gives a value other than
    \<open>null\<close>, the result is
    \<open>{html: parsed.html || currentHtml, css: parsed.css || currentCss}\<close>: the caller's
    previous HTML and CSS stand in for a field that is missing or falsy, and are the
    whole result for an object with neither field;
  \<^item> when \<open>JSON.parse\<close> throws, or gives \<open>null\<close>, the result is the HTML document
    matched in the response with an empty \<open>css\<close> (the previous HTML and CSS are not
    used), and the error \<open>Failed to update website section. Please try again.\<close> when
    no HTML document matches.
\<close>

theorem regenerateSection_parse:
  "(\<forall>v h c. JSON_parse (cleanedContent content) = Some v
        \<and> get_property v (js ''html'') = Some h \<and> get_property v (js ''css'') = Some c \<longrightarrow>
      regenerateSection JSON_parse currentHtml currentCss content
        = Inr \<lparr>html = js_or h (JString currentHtml), css = js_or c (JString currentCss)\<rparr>)
   \<and> (\<forall>kvs. JSON_parse (cleanedContent content) = Some (JObject kvs)
        \<and> map_of kvs (js ''html'') = None \<and> map_of kvs (js ''css'') = None \<longrightarrow>
      regenerateSection JSON_parse currentHtml currentCss content
        = Inr \<lparr>html = JString currentHtml, css = JString currentCss\<rparr>)
   \<and> (JSON_parse (cleanedContent content) \<in> {None, Some JNull} \<longrightarrow>
        regenerateSection JSON_parse currentHtml currentCss content =
          (case htmlMatch content of
             Some h \<Rightarrow> Inr \<lparr>html = JString h, css = JString []\<rparr>
           | None \<Rightarrow> Inl (Error (js ''Failed to update website section. Please try again.''))))"
proof (intro conjI allI impI)
  fix v h c
  assume "JSON_parse (cleanedContent content) = Some v
        \<and> get_property v (js ''html'') = Some h \<and> get_property v (js ''css'') = Some c"
  then show "regenerateSection JSON_parse currentHtml currentCss content
        = Inr \<lparr>html = js_or h (JString currentHtml), css = js_or c (JString currentCss)\<rparr>"
    using regenerateSection_strict by blast
next
  fix kvs
  assume a: "JSON_parse (cleanedContent content) = Some (JObject kvs)
        \<and> map_of kvs (js ''html'') = None \<and> map_of kvs (js ''css'') = None"
  then have "get_property (JObject kvs) (js ''html'') = Some None"
    "get_property (JObject kvs) (js ''css'') = Some None" by simp_all
  from regenerateSection_strict [OF _ this] a
  show "regenerateSection JSON_parse currentHtml currentCss content
          = Inr \<lparr>html = JString currentHtml, css = JString currentCss\<rparr>" by simp
next
  assume "JSON_parse (cleanedContent content) \<in> {None, Some JNull}"
  then show "regenerateSection JSON_parse currentHtml currentCss content =
          (case htmlMatch content of
             Some h \<Rightarrow> Inr \<lparr>html = JString h, css = JString []\<rparr>
           | None \<Rightarrow> Inl (Error (js ''Failed to update website section. Please try again.'')))"
    by (rule regenerateSection_fallback)
qed

theorem regenerateSection_parse_witness:
  "regenerateSection example_JSON_parse (js ''<p>old</p>'') (js ''p{color:red}'') (js ''{}'')
     = Inr \<lparr>html = JString (js ''<p>old</p>''), css = JString (js ''p{color:red}'')\<rparr>
   \<and> regenerateSection example_JSON_parse (js ''<p>old</p>'') (js ''p{color:red}'')
       example_html_response
     = Inr \<lparr>html = JString (js ''<!DOCTYPE html><HTML><head><style media=all>p{}</style></head></HTML>''),
            css = JString []\<rparr>
   \<and> regenerateSection example_JSON_parse (js ''<p>old</p>'') (js ''p{color:red}'')
       (js ''I cannot help with that.'')
     = Inl (Error (js ''Failed to update website section. Please try again.''))
   \<and> regenerateSection example_JSON_parse (js ''<p>old</p>'') (js ''p{color:red}'')
       (js ''```json\<newline>'' @ example_json_text @ js ''\<newline>```'')
     = Inr \<lparr>html = JString (js ''<p>hi</p>''), css = JString (js ''p{}'')\<rparr>"
proof -
  have p: "example_JSON_parse (cleanedContent (js ''{}'')) = Some (JObject [])"
    by (simp only: ex_empty_object)
  have 1: "regenerateSection example_JSON_parse (js ''<p>old</p>'') (js ''p{color:red}'') (js ''{}'')
     = Inr \<lparr>html = JString (js ''<p>old</p>''), css = JString (js ''p{color:red}'')\<rparr>"
    using regenerateSection_parse [of example_JSON_parse "js ''{}''" "js ''<p>old</p>''"
        "js ''p{color:red}''", THEN conjunct2, THEN conjunct1, rule_format, of "[]"] p
    by simp
  have f2: "example_JSON_parse (cleanedContent example_html_response) \<in> {None, Some JNull}"
    by (simp add: ex_cleaned2 ex_parse2)
  have 2: "regenerateSection example_JSON_parse (js ''<p>old</p>'') (js ''p{color:red}'')
       example_html_response
     = Inr \<lparr>html = JString (js ''<!DOCTYPE html><HTML><head><style media=all>p{}</style></head></HTML>''),
            css = JString []\<rparr>"
    using regenerateSection_parse [of example_JSON_parse example_html_response
        "js ''<p>old</p>''" "js ''p{color:red}''", THEN conjunct2, THEN conjunct2, THEN mp, OF f2]
    by (simp only: ex_html option.case)
  have f3: "example_JSON_parse (cleanedContent (js ''I cannot help with that.'')) \<in> {None, Some JNull}"
    by (simp add: ex_refusal)
  have 3: "regenerateSection example_JSON_parse (js ''<p>old</p>'') (js ''p{color:red}'')
       (js ''I cannot help with that.'')
     = Inl (Error (js ''Failed to update website section. Please try again.''))"
    using regenerateSection_parse [of example_JSON_parse "js ''I cannot help with that.''"
        "js ''<p>old</p>''" "js ''p{color:red}''", THEN conjunct2, THEN conjunct2, THEN mp, OF f3]
    by (simp only: ex_refusal option.case)
  let ?fenced = "js ''```json\<newline>'' @ example_json_text @ js ''\<newline>```''"
  let ?obj = "JObject [(js ''html'', JString (js ''<p>hi</p>'')), (js ''css'', JString (js ''p{}''))]"
  have p4: "example_JSON_parse (cleanedContent ?fenced) = Some ?obj
      \<and> get_property ?obj (js ''html'') = Some (Some (JString (js ''<p>hi</p>'')))
      \<and> get_property ?obj (js ''css'') = Some (Some (JString (js ''p{}'')))"
    by (simp only: ex_cleaned ex_parse1 get_property.simps ex_keys)
  have ne: "js ''<p>hi</p>'' \<noteq> []" "js ''p{}'' \<noteq> []"
    by (simp_all add: js_def)
  have 4: "regenerateSection example_JSON_parse (js ''<p>old</p>'') (js ''p{color:red}'') ?fenced
     = Inr \<lparr>html = JString (js ''<p>hi</p>''), css = JString (js ''p{}'')\<rparr>"
    using regenerateSection_parse [of example_JSON_parse ?fenced "js ''<p>old</p>''"
        "js ''p{color:red}''", THEN conjunct1, rule_format, OF p4] ne
    by simp
  show ?thesis by (intro conjI) (rule 1 2 3 4)+
qed

text \<open>
  C9 as stated fails: on a response that is not JSON and holds an HTML document, the
  result is that document with an empty \<open>css\<close>, not the caller's previous HTML and
  CSS.
\<close>

theorem regenerateSection_parse_counterexample:
  "example_JSON_parse (cleanedContent example_html_response) = None
   \<and> regenerateSection example_JSON_parse (js ''<p>old</p>'') (js ''p{color:red}'')
       example_html_response
     = Inr \<lparr>html = JString (js ''<!DOCTYPE html><HTML><head><style media=all>p{}</style></head></HTML>''),
            css = JString []\<rparr>
   \<and> regenerateSection example_JSON_parse (js ''<p>old</p>'') (js ''p{color:red}'')
       example_html_response
     \<noteq> Inr \<lparr>html = JString (js ''<p>old</p>''), css = JString (js ''p{color:red}'')\<rparr>"
proof -
  have f2: "example_JSON_parse (cleanedContent example_html_response) = None"
    by (simp add: ex_cleaned2 ex_parse2)
  have 2: "regenerateSection example_JSON_parse (js ''<p>old</p>'') (js ''p{color:red}'')
       example_html_response
     = Inr \<lparr>html = JString (js ''<!DOCTYPE html><HTML><head><style media=all>p{}</style></head></HTML>''),
            css = JString []\<rparr>"
    by (simp add: regenerateSection_def f2 ex_html)
  have 3: "regenerateSection example_JSON_parse (js ''<p>old</p>'') (js ''p{color:red}'')
       example_html_response
     \<noteq> Inr \<lparr>html = JString (js ''<p>old</p>''), css = JString (js ''p{color:red}'')\<rparr>"
    unfolding 2 using ex_old_differs by simp
  show ?thesis by (intro conjI) (rule f2 2 3)+
qed

end
